theory Spec2Isabelle
  imports
    Main
    "HOL-Library.Sublist"
    "HOL-Library.AList"
    "HOL-Library.Char_ord"
    "HOL-Library.List_Lexorder"
begin

section \<open>ts-module-alias: the resolution-override engine of \<open>src/index.ts\<close>\<close>

text \<open>
  The development embeds the class \<open>ModuleAlias\<close> of \<open>src/index.ts\<close>. Strings are
  \<open>string\<close> (lists of characters, compared lexicographically by character code, as the
  default \<open>Array.prototype.sort\<close> compares code units). The functions of Node's \<open>path\<close>
  module are not part of the repository: the model takes them as a parameter
  (\<open>path_api\<close>), and \<open>posix_path\<close> below instantiates the parameter at concrete inputs.
\<close>

subsection \<open>JavaScript strings and arrays\<close>

text \<open>\<open>s.indexOf(t)\<close>: the first position at which \<open>t\<close> occurs in \<open>s\<close>, or \<open>-1\<close>.\<close>

fun indexOf :: "string \<Rightarrow> string \<Rightarrow> int" where
  "indexOf [] t = (if t = [] then 0 else - 1)"
| "indexOf (c # s) t =
     (if prefix t (c # s) then 0
      else (let r = indexOf s t in if r < 0 then - 1 else r + 1))"

text \<open>\<open>s[i]\<close>: the character at position \<open>i\<close>, \<open>undefined\<close> (here \<open>None\<close>) out of range.\<close>

definition charAt :: "string \<Rightarrow> nat \<Rightarrow> char option" where
  "charAt s i = (if i < length s then Some (s ! i) else None)"

text \<open>\<open>s.substr(n)\<close> for \<open>n \<ge> 0\<close>: the rest of \<open>s\<close> from position \<open>n\<close>.\<close>

definition substr :: "string \<Rightarrow> nat \<Rightarrow> string" where
  "substr s n = drop n s"

text \<open>\<open>xs.indexOf(x) === -1\<close> on an array of strings: \<open>x\<close> is not an element.\<close>

definition array_lacks :: "string list \<Rightarrow> string \<Rightarrow> bool" where
  "array_lacks xs x = (x \<notin> set xs)"

text \<open>\<open>xs.unshift(x)\<close>.\<close>

definition unshift :: "string list \<Rightarrow> string \<Rightarrow> string list" where
  "unshift xs x = x # xs"

subsection \<open>JavaScript objects used as dictionaries\<close>

text \<open>
  An object literal \<open>{}\<close> used as a dictionary is the list of its own properties in
  creation order. Two rules of the language are visible in this program:
  \<^item> \<open>obj[k] = v\<close> with \<open>k = "__proto__"\<close> reaches the accessor of \<open>Object.prototype\<close> and
    creates no own property;
  \<^item> \<open>Object.keys\<close> lists the keys that are array indices (canonical decimal numerals
    below \<open>2^32 - 1\<close>) first, in ascending numeric order, and the other keys after them in
    creation order.
\<close>

type_synonym 'v js_object = "(string \<times> 'v) list"

definition js_get :: "'v js_object \<Rightarrow> string \<Rightarrow> 'v option" where
  "js_get obj k = map_of obj k"

definition js_put :: "'v js_object \<Rightarrow> string \<Rightarrow> 'v \<Rightarrow> 'v js_object" where
  "js_put obj k v = (if k = ''__proto__'' then obj else AList.update k v obj)"

definition is_digit :: "char \<Rightarrow> bool" where
  "is_digit c = (CHR ''0'' \<le> c \<and> c \<le> CHR ''9'')"

definition decimal_value :: "string \<Rightarrow> int" where
  "decimal_value s = foldl (\<lambda>n c. 10 * n + (of_char c - 48)) 0 s"

definition is_array_index :: "string \<Rightarrow> bool" where
  "is_array_index s =
     (s \<noteq> [] \<and> list_all is_digit s \<and> (s = ''0'' \<or> hd s \<noteq> CHR ''0'')
      \<and> decimal_value s < 4294967295)"

definition Object_keys :: "'v js_object \<Rightarrow> string list" where
  "Object_keys obj =
     (let ks = map fst obj
      in sort_key decimal_value (filter is_array_index ks)
         @ filter (\<lambda>k. \<not> is_array_index k) ks)"

subsection \<open>The \<open>path\<close> module\<close>

record path_api =
  Path_normalize :: "string \<Rightarrow> string"
  Path_join :: "string \<Rightarrow> string \<Rightarrow> string"
  Path_isAbsolute :: "string \<Rightarrow> bool"
  Path_resolve :: "string \<Rightarrow> string"

subsection \<open>Data model\<close>

text \<open>A value a custom handler may return, as far as truthiness and \<open>typeof\<close> see it.\<close>

datatype js_value =
    JUndefined | JNull | JBool bool | JNumber int | JString string | JObject

fun truthy :: "js_value \<Rightarrow> bool" where
  "truthy JUndefined = False"
| "truthy JNull = False"
| "truthy (JBool b) = b"
| "truthy (JNumber n) = (n \<noteq> 0)"
| "truthy (JString s) = (s \<noteq> [])"
| "truthy JObject = True"

fun typeof_is_string :: "js_value \<Rightarrow> bool" where
  "typeof_is_string (JString s) = True"
| "typeof_is_string v = False"

text \<open>An entry of \<open>ModuleAliasDict\<close>: a string, or a function of (from, request, alias).\<close>

datatype alias_target =
    Static string
  | Handler "string \<Rightarrow> string \<Rightarrow> string \<Rightarrow> js_value"

text \<open>
  What the program reads of a \<open>NodeModule\<close>; \<open>paths\<close> may be missing. A module is a
  mutable object that several parties hold: \<open>module_address\<close> is the identity of the
  object, and a record is the state of the object at that address at one moment.
\<close>

record node_module =
  module_address :: nat
  filename :: string
  paths :: "string list option"

datatype error =
    InitializationError_parent
  | InitializationError_manifest "string list"
  | ConfigurationError
  | TypeError

text \<open>
  The fields of the class. The two captured functions are opaque: \<open>'x\<close> is the type of
  the forwarded extra arguments and \<open>'r\<close> what the captured resolver produces (a path, or
  whatever stands for its own failure). \<open>owner_module\<close> is the state of the object
  \<open>this.module\<close>; a requesting module with the same address is that object.
\<close>

record ('x, 'r) ModuleAlias =
  owner_module :: node_module
  oldNodeModulePaths :: "string \<Rightarrow> string list"
  oldResolveFilename :: "string \<Rightarrow> node_module option \<Rightarrow> 'x \<Rightarrow> 'r"
  modulePaths :: "string list"
  moduleAliases :: "alias_target js_object"
  moduleAliasNames :: "string list"

subsection \<open>Registration: \<open>addPath\<close>, \<open>addAlias\<close>, \<open>addAliases\<close>\<close>

definition addPathHelper :: "path_api \<Rightarrow> string \<Rightarrow> string list option \<Rightarrow> string list option" where
  "addPathHelper P path targetArray =
     (let path = Path_normalize P path
      in case targetArray of
           None \<Rightarrow> None
         | Some arr \<Rightarrow> if array_lacks arr path then Some (unshift arr path) else Some arr)"

definition addPath :: "path_api \<Rightarrow> ('x, 'r) ModuleAlias \<Rightarrow> string \<Rightarrow> ('x, 'r) ModuleAlias" where
  "addPath P self path =
     (let path = Path_normalize P path
      in if array_lacks (modulePaths self) path
         then self\<lparr> modulePaths := unshift (modulePaths self) path,
                    owner_module := (owner_module self)
                      \<lparr> paths := addPathHelper P path (paths (owner_module self)) \<rparr> \<rparr>
         else self)"

definition addAlias :: "('x, 'r) ModuleAlias \<Rightarrow> string \<Rightarrow> alias_target \<Rightarrow> ('x, 'r) ModuleAlias" where
  "addAlias self alias target =
     (let aliases = js_put (moduleAliases self) alias target
      in self\<lparr> moduleAliases := aliases, moduleAliasNames := sort (Object_keys aliases) \<rparr>)"

text \<open>\<open>for (let alias in aliases) this.addAlias(alias, aliases[alias])\<close>, the argument
  given as its entries in enumeration order.\<close>

fun addAliases :: "('x, 'r) ModuleAlias \<Rightarrow> (string \<times> alias_target) list \<Rightarrow> ('x, 'r) ModuleAlias" where
  "addAliases self [] = self"
| "addAliases self ((alias, target) # rest) = addAliases (addAlias self alias target) rest"

subsection \<open>The boundary-match predicate\<close>

definition isPathMatchesAlias :: "string \<Rightarrow> string \<Rightarrow> bool" where
  "isPathMatchesAlias path alias =
     (indexOf path alias = 0
      \<and> (length path = length alias \<or> charAt path (length alias) = Some CHR ''/''))"

subsection \<open>The wrapped directory-list builder\<close>

definition nodeModulePaths :: "('x, 'r) ModuleAlias \<Rightarrow> string \<Rightarrow> string list" where
  "nodeModulePaths self from =
     (let paths = oldNodeModulePaths self from
      in if indexOf from ''node_modules'' = - 1 then modulePaths self @ paths else paths)"

subsection \<open>The wrapped filename resolver\<close>

text \<open>
  The body of the alias loop at a matching \<open>alias\<close>: the request that replaces the
  original one, or the error thrown. A missing entry reads as \<open>undefined\<close>, which
  \<open>Path.join\<close> rejects with a \<open>TypeError\<close>; so does reading \<open>parent.filename\<close> of a
  missing parent.
\<close>

definition apply_alias ::
  "path_api \<Rightarrow> ('x, 'r) ModuleAlias \<Rightarrow> string \<Rightarrow> node_module option \<Rightarrow> string \<Rightarrow> error + string" where
  "apply_alias P self request parent alias =
     (case js_get (moduleAliases self) alias of
        None \<Rightarrow> Inl TypeError
      | Some (Static aliasTarget) \<Rightarrow>
          Inr (Path_join P aliasTarget (substr request (length alias)))
      | Some (Handler h) \<Rightarrow>
          (case parent of
             None \<Rightarrow> Inl TypeError
           | Some p \<Rightarrow>
               (let fromPath = filename p; aliasTarget = h fromPath request alias
                in if \<not> truthy aliasTarget \<or> \<not> typeof_is_string aliasTarget
                   then Inl ConfigurationError
                   else (case aliasTarget of
                           JString t \<Rightarrow> Inr (Path_join P t (substr request (length alias)))
                         | _ \<Rightarrow> Inl ConfigurationError))))"

text \<open>\<open>for (let i = names.length; i-- > 0;)\<close>: \<open>alias_loop \<dots> n\<close> is the loop with \<open>n\<close>
  indices still to visit, \<open>n - 1\<close> first; the first match ends it.\<close>

fun alias_loop ::
  "path_api \<Rightarrow> ('x, 'r) ModuleAlias \<Rightarrow> string \<Rightarrow> node_module option \<Rightarrow> nat \<Rightarrow> error + string" where
  "alias_loop P self request parent 0 = Inr request"
| "alias_loop P self request parent (Suc i) =
     (let alias = moduleAliasNames self ! i
      in if isPathMatchesAlias request alias
         then apply_alias P self request parent alias
         else alias_loop P self request parent i)"

text \<open>The search-path repair: the keys of the object \<open>paths\<close> filled in list order.\<close>

definition repaired_paths :: "('x, 'r) ModuleAlias \<Rightarrow> node_module option \<Rightarrow> string list" where
  "repaired_paths self parent =
     (let moduleAndParentPaths =
            (case parent of
               None \<Rightarrow> modulePaths self
             | Some p \<Rightarrow> (case paths p of
                            None \<Rightarrow> modulePaths self
                          | Some pp \<Rightarrow> modulePaths self @ pp));
          paths = foldl (\<lambda>obj path. js_put obj path True) [] moduleAndParentPaths
      in Object_keys paths)"

text \<open>
  The outcome of a call: the value returned by the captured resolver or the error
  thrown, and the requesting module and the instance as the call leaves them. The only
  assignment of the function is \<open>parent.paths = Object.keys(paths)\<close>; it reaches the
  instance when the requesting module is the object \<open>this.module\<close>.
\<close>

record ('x, 'r) resolve_outcome =
  returned :: "error + 'r"
  instance_after :: "('x, 'r) ModuleAlias"
  parent_after :: "node_module option"

definition resolveFilename ::
  "path_api \<Rightarrow> ('x, 'r) ModuleAlias \<Rightarrow> string \<Rightarrow> node_module option \<Rightarrow> 'x
     \<Rightarrow> ('x, 'r) resolve_outcome" where
  "resolveFilename P self request parent args =
     (case alias_loop P self request parent (length (moduleAliasNames self)) of
        Inl e \<Rightarrow> \<lparr> returned = Inl e, instance_after = self, parent_after = parent \<rparr>
      | Inr request' \<Rightarrow>
          (let parent' = map_option (\<lambda>p. p\<lparr> paths := Some (repaired_paths self parent) \<rparr>) parent
           in \<lparr> returned = Inr (oldResolveFilename self request' parent' args),
                instance_after =
                  (case parent' of
                     None \<Rightarrow> self
                   | Some p' \<Rightarrow>
                       if module_address p' = module_address (owner_module self)
                       then self\<lparr> owner_module := p' \<rparr> else self),
                parent_after = parent' \<rparr>))"

subsection \<open>Construction: the installation guard and the manifest import\<close>

text \<open>
  What the constructor reads of its surroundings: \<open>module.parent\<close>, \<open>__dirname\<close>,
  \<open>process.cwd()\<close> and \<open>require\<close> of a manifest path. A manifest is given by its two
  fields, \<open>_moduleAliases\<close> as its entries in enumeration order (none when the field is
  absent) and \<open>_moduleDirectories\<close> when it is an array; alias targets in a manifest are
  strings.
\<close>

record package_json =
  pkg_moduleAliases :: "(string \<times> string) list"
  pkg_moduleDirectories :: "string list option"

datatype json_value = Json_primitive | Json_null | Json_object package_json

datatype require_result = Require_throws | Required json_value

record environment =
  ambient_parent :: "node_module option"
  dirname :: string
  cwd :: string
  require_json :: "string \<Rightarrow> require_result"

datatype given_options = No_options | Base_string string | Options "string option"

text \<open>
  The module-constructor object of the runtime context: either \<open>_moduleAlias\<close> is unset
  and \<open>_nodeModulePaths\<close>, \<open>_resolveFilename\<close> are the functions found there, or
  \<open>_moduleAlias\<close> is the instance at the given address and the two functions are the
  arrow functions that the constructor closed over that instance. Instances live in a
  store, so that two handles on one instance are one address. The model has one runtime
  context.
\<close>

datatype ('x, 'r) module_ctor =
    Unpatched "string \<Rightarrow> string list" "string \<Rightarrow> node_module option \<Rightarrow> 'x \<Rightarrow> 'r"
  | Patched nat

record ('x, 'r) world =
  store :: "('x, 'r) ModuleAlias list"
  ModuleCtor :: "('x, 'r) module_ctor"

text \<open>\<open>s.replace(/\/package\.json$/, '')\<close>.\<close>

definition strip_package_json :: "string \<Rightarrow> string" where
  "strip_package_json s =
     (if suffix ''/package.json'' s then take (length s - length ''/package.json'') s else s)"

definition candidatePackagePaths :: "path_api \<Rightarrow> environment \<Rightarrow> given_options \<Rightarrow> string list" where
  "candidatePackagePaths P env givenOptions =
     (let base = (case givenOptions of
                    Base_string b \<Rightarrow> Some b
                  | Options b \<Rightarrow> b
                  | No_options \<Rightarrow> None)
      in case base of
           None \<Rightarrow> [Path_join P (dirname env) ''../..'', cwd env]
         | Some b \<Rightarrow>
             if b = [] then [Path_join P (dirname env) ''../..'', cwd env]
             else [Path_resolve P (strip_package_json b)])"

text \<open>The \<open>try\<close> loop over the candidates: the last \<open>base\<close> assigned and what was loaded.\<close>

fun load_package ::
  "path_api \<Rightarrow> environment \<Rightarrow> string list \<Rightarrow> string option \<times> json_value option" where
  "load_package P env [] = (None, None)"
| "load_package P env (c # cs) =
     (case require_json env (Path_join P c ''package.json'') of
        Required v \<Rightarrow> (Some c, Some v)
      | Require_throws \<Rightarrow>
          (case load_package P env cs of
             (None, v) \<Rightarrow> (Some c, v)
           | (Some b, v) \<Rightarrow> (Some b, v)))"

definition rebase_aliases :: "path_api \<Rightarrow> string \<Rightarrow> (string \<times> string) list \<Rightarrow> (string \<times> string) list" where
  "rebase_aliases P base aliases =
     map (\<lambda>(alias, target).
            (alias, if Path_isAbsolute P target then Path_join P base target else target))
         aliases"

definition register_directories ::
  "path_api \<Rightarrow> string \<Rightarrow> ('x, 'r) ModuleAlias \<Rightarrow> string list \<Rightarrow> ('x, 'r) ModuleAlias" where
  "register_directories P base self dirs =
     foldl (\<lambda>s dir. if dir = ''node_modules'' then s
                     else (let modulePath = Path_join P base dir in addPath P s modulePath))
           self dirs"

definition import_manifest ::
  "path_api \<Rightarrow> string \<Rightarrow> package_json \<Rightarrow> ('x, 'r) ModuleAlias \<Rightarrow> ('x, 'r) ModuleAlias" where
  "import_manifest P base npmPackage self =
     (let aliases = rebase_aliases P base (pkg_moduleAliases npmPackage);
          self = addAliases self (map (\<lambda>(alias, target). (alias, Static target)) aliases)
      in case pkg_moduleDirectories npmPackage of
           None \<Rightarrow> self
         | Some dirs \<Rightarrow> register_directories P base self dirs)"

text \<open>The field initialisers and the first assignments of the constructor.\<close>

definition new_instance ::
  "node_module \<Rightarrow> (string \<Rightarrow> string list) \<Rightarrow> (string \<Rightarrow> node_module option \<Rightarrow> 'x \<Rightarrow> 'r)
     \<Rightarrow> ('x, 'r) ModuleAlias" where
  "new_instance m nmp rf =
     \<lparr> owner_module = m, oldNodeModulePaths = nmp, oldResolveFilename = rf,
       modulePaths = [], moduleAliases = [], moduleAliasNames = [] \<rparr>"

text \<open>
  The two arrow functions that the constructor installs, for an instance that is never
  published because the constructor throws after installing them. No reference to such
  an instance is left, so its tables stay empty: its alias loop visits nothing, and its
  resolver repairs the search-path list and delegates.
\<close>

definition abandoned_resolver ::
  "('x, 'r) ModuleAlias \<Rightarrow> string \<Rightarrow> node_module option \<Rightarrow> 'x \<Rightarrow> 'r" where
  "abandoned_resolver self request parent args =
     oldResolveFilename self request
       (map_option (\<lambda>p. p\<lparr> paths := Some (repaired_paths self parent) \<rparr>) parent) args"

definition abandoned_hooks :: "('x, 'r) ModuleAlias \<Rightarrow> ('x, 'r) module_ctor" where
  "abandoned_hooks self = Unpatched (nodeModulePaths self) (abandoned_resolver self)"

text \<open>
  The constructor: the error thrown and the world it leaves behind, or the world after
  the construction and the address of the instance that \<open>new\<close> evaluates to. The
  wrappers are installed before the manifest is looked for, so a construction that
  throws there leaves them installed with \<open>_moduleAlias\<close> unset.
\<close>

definition ModuleAlias_constructor ::
  "path_api \<Rightarrow> environment \<Rightarrow> ('x, 'r) world \<Rightarrow> node_module option \<Rightarrow> given_options
     \<Rightarrow> (error \<times> ('x, 'r) world) + (('x, 'r) world \<times> nat)" where
  "ModuleAlias_constructor P env w parent givenOptions =
     (case (case parent of Some p \<Rightarrow> Some p | None \<Rightarrow> ambient_parent env) of
        None \<Rightarrow> Inl (InitializationError_parent, w)
      | Some m \<Rightarrow>
          (case ModuleCtor w of
             Patched existing \<Rightarrow> Inr (w, existing)
           | Unpatched nmp rf \<Rightarrow>
               (let self = new_instance m nmp rf;
                    installed = w\<lparr> ModuleCtor := abandoned_hooks self \<rparr>;
                    candidates = candidatePackagePaths P env givenOptions;
                    (found, npmPackage) = load_package P env candidates;
                    base = (case found of
                              None \<Rightarrow> dirname env
                            | Some b \<Rightarrow> if b = [] then dirname env else b)
                in case npmPackage of
                     None \<Rightarrow> Inl (InitializationError_manifest candidates, installed)
                   | Some Json_primitive \<Rightarrow> Inl (InitializationError_manifest candidates, installed)
                   | Some Json_null \<Rightarrow> Inl (TypeError, installed)
                   | Some (Json_object pkg) \<Rightarrow>
                       (let self = import_manifest P base pkg self;
                            handle = length (store w)
                        in Inr (w\<lparr> store := store w @ [self], ModuleCtor := Patched handle \<rparr>,
                                handle)))))"

text \<open>A registration call made through a handle: the method on the instance stored there.\<close>

definition addAlias_at ::
  "('x, 'r) world \<Rightarrow> nat \<Rightarrow> string \<Rightarrow> alias_target \<Rightarrow> ('x, 'r) world" where
  "addAlias_at w handle alias target =
     w\<lparr> store := (store w)[handle := addAlias (store w ! handle) alias target] \<rparr>"

text \<open>A call of \<open>ModuleCtor._resolveFilename\<close> as the runtime makes it.\<close>

definition call_resolveFilename ::
  "path_api \<Rightarrow> ('x, 'r) world \<Rightarrow> string \<Rightarrow> node_module option \<Rightarrow> 'x \<Rightarrow> error + 'r" where
  "call_resolveFilename P w request parent args =
     (case ModuleCtor w of
        Unpatched nmp rf \<Rightarrow> Inr (rf request parent args)
      | Patched address \<Rightarrow> returned (resolveFilename P (store w ! address) request parent args))"

subsection \<open>Node's \<open>path\<close> on POSIX, for concrete inputs\<close>

text \<open>
  \<open>path.posix\<close> as Node documents it: \<open>normalize\<close> drops empty and \<open>.\<close> segments,
  resolves \<open>..\<close> against the segment before it, keeps a trailing separator, and turns
  the empty result into \<open>.\<close>; \<open>join\<close> normalizes its non-empty arguments joined by
  \<open>/\<close>. \<open>resolve\<close> is taken relative to a working directory.
\<close>

fun split_on :: "char \<Rightarrow> string \<Rightarrow> string list" where
  "split_on d [] = [[]]"
| "split_on d (c # s) =
     (if c = d then [] # split_on d s
      else (case split_on d s of [] \<Rightarrow> [[c]] | w # ws \<Rightarrow> (c # w) # ws))"

fun join_with :: "string \<Rightarrow> string list \<Rightarrow> string" where
  "join_with d [] = []"
| "join_with d [w] = w"
| "join_with d (w # ws) = w @ d @ join_with d ws"

fun normalize_segments :: "bool \<Rightarrow> string list \<Rightarrow> string list \<Rightarrow> string list" where
  "normalize_segments allowAboveRoot [] acc = rev acc"
| "normalize_segments allowAboveRoot (s # ss) acc =
     (if s = [] \<or> s = ''.'' then normalize_segments allowAboveRoot ss acc
      else if s = ''..'' then
        (case acc of
           [] \<Rightarrow> normalize_segments allowAboveRoot ss (if allowAboveRoot then [''..''] else [])
         | t # ts \<Rightarrow>
             if t = ''..'' then normalize_segments allowAboveRoot ss (''..'' # acc)
             else normalize_segments allowAboveRoot ss ts)
      else normalize_segments allowAboveRoot ss (s # acc))"

definition posix_normalize :: "string \<Rightarrow> string" where
  "posix_normalize path =
     (if path = [] then ''.''
      else (let isAbsolute = (hd path = CHR ''/'');
                trailingSeparator = (last path = CHR ''/'');
                body = join_with ''/''
                         (normalize_segments (\<not> isAbsolute) (split_on CHR ''/'' path) [])
            in if body = []
               then (if isAbsolute then ''/'' else if trailingSeparator then ''./'' else ''.'')
               else (if isAbsolute then ''/'' else [])
                    @ body @ (if trailingSeparator then ''/'' else [])))"

definition posix_join :: "string \<Rightarrow> string \<Rightarrow> string" where
  "posix_join a b =
     (if a = [] \<and> b = [] then ''.''
      else if a = [] then posix_normalize b
      else if b = [] then posix_normalize a
      else posix_normalize (a @ ''/'' @ b))"

definition posix_isAbsolute :: "string \<Rightarrow> bool" where
  "posix_isAbsolute path = (path \<noteq> [] \<and> hd path = CHR ''/'')"

definition posix_resolve :: "string \<Rightarrow> string \<Rightarrow> string" where
  "posix_resolve workdir path =
     (let full = (if posix_isAbsolute path then path else workdir @ ''/'' @ path);
          body = join_with ''/'' (normalize_segments False (split_on CHR ''/'' full) [])
      in ''/'' @ body)"

definition posix_path :: "string \<Rightarrow> path_api" where
  "posix_path workdir =
     \<lparr> Path_normalize = posix_normalize, Path_join = posix_join,
       Path_isAbsolute = posix_isAbsolute, Path_resolve = posix_resolve workdir \<rparr>"

subsection \<open>Notions used to state the properties\<close>

text \<open>The alias at which the descending walk over the name index stops, if any.\<close>

definition first_matching_alias :: "('x, 'r) ModuleAlias \<Rightarrow> string \<Rightarrow> string option" where
  "first_matching_alias self request =
     find (isPathMatchesAlias request) (rev (moduleAliasNames self))"

text \<open>
  The state of the alias table that the constructor starts from and \<open>addAlias\<close>
  keeps: the dictionary has one entry per name, none of them named \<open>__proto__\<close>, and the
  name index is the sorted list of its keys.
\<close>

definition alias_table_ok :: "('x, 'r) ModuleAlias \<Rightarrow> bool" where
  "alias_table_ok self =
     (distinct (map fst (moduleAliases self))
      \<and> ''__proto__'' \<notin> set (map fst (moduleAliases self))
      \<and> moduleAliasNames self = sort (Object_keys (moduleAliases self)))"

text \<open>A registration call, and a sequence of them applied in order.\<close>

datatype registration =
    AddAlias string alias_target
  | AddAliases "(string \<times> alias_target) list"

fun register :: "('x, 'r) ModuleAlias \<Rightarrow> registration \<Rightarrow> ('x, 'r) ModuleAlias" where
  "register self (AddAlias alias target) = addAlias self alias target"
| "register self (AddAliases aliases) = addAliases self aliases"

definition register_all :: "('x, 'r) ModuleAlias \<Rightarrow> registration list \<Rightarrow> ('x, 'r) ModuleAlias" where
  "register_all self calls = foldl register self calls"

text \<open>The entries that a sequence of registration calls passes, in the order of the calls.\<close>

fun entries_of :: "registration \<Rightarrow> (string \<times> alias_target) list" where
  "entries_of (AddAlias alias target) = [(alias, target)]"
| "entries_of (AddAliases aliases) = aliases"

definition registered_entries :: "registration list \<Rightarrow> (string \<times> alias_target) list" where
  "registered_entries calls = concat (map entries_of calls)"

text \<open>
  The specification's wording of the directory-list rule, for comparison with the
  test the code makes: \<open>from\<close> lies inside a standard dependency directory when one of
  its path segments is \<open>node_modules\<close>.
\<close>

definition spec_inside_dependency_directory :: "string \<Rightarrow> bool" where
  "spec_inside_dependency_directory from = (''node_modules'' \<in> set (split_on CHR ''/'' from))"

text \<open>
  The specification's wording of the search-path repair: the entries of the first
  list, then those of the second, each kept at its first occurrence only.
\<close>

fun dedup :: "string list \<Rightarrow> string list" where
  "dedup [] = []"
| "dedup (x # xs) = x # filter (\<lambda>y. y \<noteq> x) (dedup xs)"

definition spec_ordered_union :: "string list \<Rightarrow> string list \<Rightarrow> string list" where
  "spec_ordered_union xs ys = dedup (xs @ ys)"

text \<open>What a dictionary of aliases shows of its static targets, entry by entry.\<close>

definition static_targets :: "alias_target js_object \<Rightarrow> (string \<times> string option) list" where
  "static_targets obj =
     map (\<lambda>(alias, target). (alias, case target of Static t \<Rightarrow> Some t | Handler h \<Rightarrow> None)) obj"

text \<open>A path segment that \<open>normalize\<close> keeps as it is.\<close>

definition plain_segment :: "string \<Rightarrow> bool" where
  "plain_segment s = (s \<noteq> [] \<and> CHR ''/'' \<notin> set s \<and> s \<noteq> ''.'' \<and> s \<noteq> ''..'')"

text \<open>
  The segment lists that \<open>normalize\<close> produces: \<open>..\<close> segments, only where going above
  the start is allowed, followed by plain segments.
\<close>

fun normal_segments :: "bool \<Rightarrow> string list \<Rightarrow> bool" where
  "normal_segments allowAboveRoot [] = True"
| "normal_segments allowAboveRoot (s # ss) =
     (if s = ''..'' then allowAboveRoot \<and> normal_segments allowAboveRoot ss
      else plain_segment s \<and> list_all plain_segment ss)"

text \<open>A string that \<open>Object.keys\<close> lists where it was inserted and that can be a key.\<close>

definition plain_key :: "string \<Rightarrow> bool" where
  "plain_key k = (\<not> is_array_index k \<and> k \<noteq> ''__proto__'')"

subsection \<open>A small concrete setting\<close>

text \<open>
  A requesting module, a host directory-list builder and a host resolver that reports
  the arguments it was called with; the extra argument is the \<open>isMain\<close> flag.
\<close>

definition example_module :: node_module where
  "example_module =
     \<lparr> module_address = 0, filename = ''/app/src/main.js'',
       paths = Some [''/app/src/node_modules'', ''/app/node_modules''] \<rparr>"

text \<open>Another module object, with the search-path list the host gave it.\<close>

definition example_other_module :: node_module where
  "example_other_module =
     \<lparr> module_address = 1, filename = ''/app/src/other.js'',
       paths = Some [''/app/src/node_modules'', ''/app/node_modules''] \<rparr>"

definition example_nodeModulePaths :: "string \<Rightarrow> string list" where
  "example_nodeModulePaths from = [from @ ''/node_modules'']"

definition example_resolver :: "string \<Rightarrow> node_module option \<Rightarrow> bool \<Rightarrow> string \<times> node_module option \<times> bool" where
  "example_resolver request parent isMain = (request, parent, isMain)"

definition example_instance :: "(bool, string \<times> node_module option \<times> bool) ModuleAlias" where
  "example_instance = new_instance example_module example_nodeModulePaths example_resolver"

text \<open>
  A runtime context before any construction, and surroundings in which the manifest
  is \<open>/app/package.json\<close>, found as the second candidate.
\<close>

definition example_package :: package_json where
  "example_package =
     \<lparr> pkg_moduleAliases = [(''@root'', ''.''), (''@client'', ''/src/client'')],
       pkg_moduleDirectories = Some [''node_modules'', ''node_modules_custom''] \<rparr>"

definition example_environment :: environment where
  "example_environment =
     \<lparr> ambient_parent = None,
       dirname = ''/app/node_modules/ts-module-alias/dist'',
       cwd = ''/app'',
       require_json = (\<lambda>file. if file = ''/app/package.json''
                                then Required (Json_object example_package)
                                else Require_throws) \<rparr>"

definition example_world :: "(bool, string \<times> node_module option \<times> bool) world" where
  "example_world =
     \<lparr> store = [], ModuleCtor = Unpatched example_nodeModulePaths example_resolver \<rparr>"

text \<open>The instance that the first construction in that context publishes.\<close>

definition example_published :: "(bool, string \<times> node_module option \<times> bool) ModuleAlias" where
  "example_published =
     \<lparr> owner_module =
         \<lparr> module_address = 0, filename = ''/app/src/main.js'',
           paths = Some [''/app/node_modules_custom'', ''/app/src/node_modules'',
                         ''/app/node_modules''] \<rparr>,
       oldNodeModulePaths = example_nodeModulePaths,
       oldResolveFilename = example_resolver,
       modulePaths = [''/app/node_modules_custom''],
       moduleAliases = [(''@root'', Static ''.''), (''@client'', Static ''/app/src/client'')],
       moduleAliasNames = [''@client'', ''@root''] \<rparr>"

section \<open>Properties\<close>

subsection \<open>Strings and the boundary match\<close>

lemma indexOf_ge: "- 1 \<le> indexOf s t"
  by (induction s) (auto simp: Let_def)

lemma indexOf_eq_0: "indexOf s t = 0 \<longleftrightarrow> prefix t s"
proof (cases s)
  case Nil
  then show ?thesis by auto
next
  case (Cons c s')
  have "- 1 \<le> indexOf s' t" by (rule indexOf_ge)
  then show ?thesis using Cons by (auto simp: Let_def)
qed

lemma indexOf_absent: "indexOf s t = - 1 \<longleftrightarrow> \<not> sublist t s"
proof (induction s)
  case Nil
  then show ?case by auto
next
  case (Cons c s)
  have ge: "- 1 \<le> indexOf s t" by (rule indexOf_ge)
  show ?case
  proof (cases "prefix t (c # s)")
    case True
    then show ?thesis by (auto simp: sublist_Cons_right)
  next
    case False
    then have "indexOf (c # s) t = - 1 \<longleftrightarrow> indexOf s t = - 1"
      using ge by (auto simp: Let_def)
    then show ?thesis using False Cons.IH by (simp add: sublist_Cons_right)
  qed
qed

lemma isPathMatchesAlias_iff:
  "isPathMatchesAlias path alias \<longleftrightarrow>
     prefix alias path \<and>
     (length path = length alias \<or>
      (length alias < length path \<and> path ! length alias = CHR ''/''))"
  by (auto simp: isPathMatchesAlias_def indexOf_eq_0 charAt_def)

lemma isPathMatchesAlias_cases:
  "isPathMatchesAlias path alias \<longleftrightarrow> path = alias \<or> prefix (alias @ ''/'') path"
proof
  assume "isPathMatchesAlias path alias"
  then obtain zs where zs: "path = alias @ zs"
    and b: "zs = [] \<or> (zs \<noteq> [] \<and> zs ! 0 = CHR ''/'')"
    by (auto simp: isPathMatchesAlias_iff prefix_def nth_append)
  show "path = alias \<or> prefix (alias @ ''/'') path"
  proof (cases zs)
    case Nil
    then show ?thesis using zs by simp
  next
    case (Cons z zs')
    then have "z = CHR ''/''" using b by simp
    then show ?thesis using zs Cons by simp
  qed
next
  assume "path = alias \<or> prefix (alias @ ''/'') path"
  then show "isPathMatchesAlias path alias"
    by (auto simp: isPathMatchesAlias_iff prefix_def nth_append)
qed

lemma strict_prefix_less: "strict_prefix (a::string) b \<Longrightarrow> a < b"
  by (auto simp: strict_prefix_def prefix_def list_less_def intro!: lexord_append_rightI)
     (metis neq_Nil_conv append_Nil2)

lemma prefix_le: "prefix (a::string) b \<Longrightarrow> a \<le> b"
  using strict_prefix_less[of a b] by (cases "a = b") (auto simp: strict_prefix_def)

subsection \<open>Paths of plain segments under \<open>path.posix\<close>\<close>

lemma split_on_nonempty: "split_on d s \<noteq> []"
  by (induction s) (auto split: list.splits)

lemma split_on_hd_prefix: "prefix (hd (split_on d s)) s"
  by (induction s) (auto split: list.splits simp: split_on_nonempty)

lemma split_on_sublist: "seg \<in> set (split_on d s) \<Longrightarrow> sublist seg s"
proof (induction s arbitrary: seg)
  case Nil
  then show ?case by simp
next
  case (Cons c s)
  show ?case
  proof (cases "c = d")
    case True
    then have "seg = [] \<or> seg \<in> set (split_on d s)" using Cons.prems by auto
    then show ?thesis using Cons.IH by (auto simp: sublist_Cons_right)
  next
    case False
    obtain w ws where w: "split_on d s = w # ws"
      using split_on_nonempty[of d s] by (cases "split_on d s") auto
    then have "seg = c # w \<or> seg \<in> set ws" using Cons.prems False by auto
    then show ?thesis
    proof
      assume "seg = c # w"
      moreover have "prefix w s" using split_on_hd_prefix[of d s] w by simp
      ultimately have "prefix seg (c # s)" by simp
      then show ?thesis by (rule prefix_imp_sublist)
    next
      assume "seg \<in> set ws"
      then have "sublist seg s" using Cons.IH w by simp
      then show ?thesis by (simp add: sublist_Cons_right)
    qed
  qed
qed

lemma split_on_free: "d \<notin> set s \<Longrightarrow> split_on d s = [s]"
  by (induction s) auto

lemma split_on_append: "d \<notin> set s \<Longrightarrow> split_on d (s @ d # r) = s # split_on d r"
  by (induction s) (auto simp: split_on_nonempty split: list.splits)

lemma join_with_Cons: "ws \<noteq> [] \<Longrightarrow> join_with d (w # ws) = w @ d @ join_with d ws"
  by (cases ws) simp_all

lemma split_on_join:
  "ss \<noteq> [] \<Longrightarrow> \<forall>s\<in>set ss. d \<notin> set s \<Longrightarrow> split_on d (join_with [d] ss) = ss"
proof (induction ss)
  case Nil
  then show ?case by simp
next
  case (Cons w ws)
  show ?case
  proof (cases "ws = []")
    case True
    then show ?thesis using Cons.prems by (simp add: split_on_free)
  next
    case False
    then show ?thesis using Cons by (simp add: join_with_Cons split_on_append)
  qed
qed

lemma join_with_append:
  "xs \<noteq> [] \<Longrightarrow> ys \<noteq> [] \<Longrightarrow> join_with d (xs @ ys) = join_with d xs @ d @ join_with d ys"
proof (induction xs)
  case Nil
  then show ?case by simp
next
  case (Cons w ws)
  show ?case
  proof (cases "ws = []")
    case True
    then show ?thesis using Cons.prems by (simp add: join_with_Cons)
  next
    case False
    then show ?thesis using Cons by (simp add: join_with_Cons)
  qed
qed

lemma normalize_segments_plain:
  "\<forall>s\<in>set segs. s = [] \<or> plain_segment s \<Longrightarrow>
     normalize_segments allowAboveRoot segs acc = rev acc @ filter (\<lambda>s. s \<noteq> []) segs"
  by (induction segs arbitrary: acc) (auto simp: plain_segment_def)

lemma plain_segment_ends:
  "plain_segment s \<Longrightarrow> s \<noteq> [] \<and> hd s \<noteq> CHR ''/'' \<and> last s \<noteq> CHR ''/''"
proof -
  assume a: "plain_segment s"
  have ne: "s \<noteq> []" and fr: "CHR ''/'' \<notin> set s"
    using a by (simp_all add: plain_segment_def)
  have h: "hd s \<noteq> CHR ''/''" using ne fr by (cases s) auto
  have l: "last s \<noteq> CHR ''/''" using ne fr by (cases s rule: rev_cases) auto
  show ?thesis using ne h l by simp
qed

lemma plain_segment_free: "plain_segment s \<Longrightarrow> CHR ''/'' \<notin> set s"
  by (simp add: plain_segment_def)

lemma segments_free:
  "\<forall>s\<in>set segs. s = [] \<or> plain_segment s \<Longrightarrow> \<forall>s\<in>set segs. CHR ''/'' \<notin> set s"
proof
  fix s assume a: "\<forall>s\<in>set segs. s = [] \<or> plain_segment s" and m: "s \<in> set segs"
  then have "s = [] \<or> plain_segment s" by blast
  then show "CHR ''/'' \<notin> set s" using plain_segment_free by auto
qed

lemma join_with_last:
  "segs \<noteq> [] \<Longrightarrow> last segs \<noteq> [] \<Longrightarrow>
     join_with d segs \<noteq> [] \<and> last (join_with d segs) = last (last segs)"
proof (induction segs)
  case Nil
  then show ?case by simp
next
  case (Cons w ws)
  show ?case
  proof (cases "ws = []")
    case True
    then show ?thesis using Cons.prems by simp
  next
    case False
    then show ?thesis using Cons by (simp add: join_with_Cons)
  qed
qed

lemma join_with_hd:
  "segs \<noteq> [] \<Longrightarrow> hd segs \<noteq> [] \<Longrightarrow> hd (join_with d segs) = hd (hd segs)"
proof (cases segs)
  case Nil
  assume "segs \<noteq> []"
  then show ?thesis using Nil by simp
next
  case (Cons w ws)
  assume "hd segs \<noteq> []"
  then show ?thesis using Cons by (cases ws) simp_all
qed

lemma kept_segments:
  assumes "\<forall>s\<in>set segs. s = [] \<or> plain_segment s" "segs \<noteq> []" "plain_segment (last segs)"
  shows "filter (\<lambda>s. s \<noteq> []) segs \<noteq> []"
    and "last (filter (\<lambda>s. s \<noteq> []) segs) \<noteq> []"
proof -
  have m: "last segs \<in> set segs" using assms(2) by (rule last_in_set)
  have n: "last segs \<noteq> []" using plain_segment_ends[OF assms(3)] by simp
  have "last segs \<in> set (filter (\<lambda>s. s \<noteq> []) segs)" using m n by simp
  then show ne: "filter (\<lambda>s. s \<noteq> []) segs \<noteq> []" by (cases "filter (\<lambda>s. s \<noteq> []) segs") simp_all
  have "last (filter (\<lambda>s. s \<noteq> []) segs) \<in> set (filter (\<lambda>s. s \<noteq> []) segs)"
    using ne by (rule last_in_set)
  then show "last (filter (\<lambda>s. s \<noteq> []) segs) \<noteq> []" by simp
qed

lemma posix_normalize_relative:
  assumes segs: "\<forall>s\<in>set segs. s = [] \<or> plain_segment s" "segs \<noteq> []"
    and first: "plain_segment (hd segs)"
    and final: "plain_segment (last segs)"
  shows "posix_normalize (join_with ''/'' segs) = join_with ''/'' (filter (\<lambda>s. s \<noteq> []) segs)"
proof -
  let ?path = "join_with ''/'' segs"
  let ?kept = "filter (\<lambda>s. s \<noteq> []) segs"
  have free: "\<forall>s\<in>set segs. CHR ''/'' \<notin> set s" using segs(1) by (rule segments_free)
  have l: "?path \<noteq> [] \<and> last ?path = last (last segs)"
    using segs(2) plain_segment_ends[OF final] by (intro join_with_last) simp_all
  have h: "hd ?path = hd (hd segs)"
    using segs(2) plain_segment_ends[OF first] by (intro join_with_hd) simp_all
  have ne: "?path \<noteq> []" using l by simp
  have tr: "last ?path \<noteq> CHR ''/''" using l plain_segment_ends[OF final] by simp
  have ab: "hd ?path \<noteq> CHR ''/''" using h plain_segment_ends[OF first] by simp
  have body: "join_with ''/'' ?kept \<noteq> []"
    using join_with_last[of ?kept "''/''"] kept_segments[OF segs final] by simp
  have sp: "split_on CHR ''/'' ?path = segs" using split_on_join[OF segs(2) free] by simp
  have ns: "normalize_segments True segs [] = ?kept"
    using normalize_segments_plain[OF segs(1), of True "[]"] by simp
  show ?thesis
    unfolding posix_normalize_def Let_def sp using ne tr ab body by (simp add: ns)
qed

lemma posix_normalize_absolute:
  assumes segs: "\<forall>s\<in>set segs. s = [] \<or> plain_segment s" "segs \<noteq> []"
    and final: "plain_segment (last segs)"
  shows "posix_normalize (''/'' @ join_with ''/'' segs)
           = ''/'' @ join_with ''/'' (filter (\<lambda>s. s \<noteq> []) segs)"
proof -
  let ?path = "''/'' @ join_with ''/'' segs"
  let ?kept = "filter (\<lambda>s. s \<noteq> []) segs"
  have free: "\<forall>s\<in>set ([] # segs). CHR ''/'' \<notin> set s"
    using segments_free[OF segs(1)] by simp
  have l: "join_with ''/'' segs \<noteq> [] \<and> last (join_with ''/'' segs) = last (last segs)"
    using segs(2) plain_segment_ends[OF final] by (intro join_with_last) simp_all
  have tr: "last ?path \<noteq> CHR ''/''" using l plain_segment_ends[OF final] by simp
  have body: "join_with ''/'' ?kept \<noteq> []"
    using join_with_last[of ?kept "''/''"] kept_segments[OF segs final] by simp
  have p: "?path = join_with ''/'' ([] # segs)" using segs(2) by (simp add: join_with_Cons)
  have "split_on CHR ''/'' (join_with ''/'' ([] # segs)) = [] # segs"
    using free by (intro split_on_join) simp_all
  then have sp: "split_on CHR ''/'' ?path = [] # segs" by (simp only: p)
  have ns: "normalize_segments False segs [] = ?kept"
    using normalize_segments_plain[OF segs(1), of False "[]"] by simp
  show ?thesis
    unfolding posix_normalize_def Let_def sp using tr body by (simp add: ns)
qed

lemma posix_join_plain:
  assumes lead: "lead = [] \<or> lead = ''/''"
    and ts: "ts \<noteq> []" "\<forall>s\<in>set ts. plain_segment s"
    and xs: "\<forall>s\<in>set xs. plain_segment s"
  shows "posix_join (lead @ join_with ''/'' ts) [] = lead @ join_with ''/'' ts"
    and "xs \<noteq> [] \<Longrightarrow>
           posix_join (lead @ join_with ''/'' ts) (''/'' @ join_with ''/'' xs)
             = lead @ join_with ''/'' ts @ ''/'' @ join_with ''/'' xs"
proof -
  have ts1: "\<forall>s\<in>set ts. s = [] \<or> plain_segment s" using ts(2) by blast
  have hd_ts: "plain_segment (hd ts)" using ts by simp
  have last_ts: "plain_segment (last ts)" using ts by simp
  have keep_ts: "filter (\<lambda>s. s \<noteq> []) ts = ts"
    using ts(2) plain_segment_ends by (auto simp: filter_id_conv)
  have jne: "join_with ''/'' ts \<noteq> []"
    using join_with_last[OF ts(1), of "''/''"] plain_segment_ends[OF last_ts] by simp
  have n1: "posix_normalize (lead @ join_with ''/'' ts) = lead @ join_with ''/'' ts"
    using lead posix_normalize_relative[OF ts1 ts(1) hd_ts last_ts]
      posix_normalize_absolute[OF ts1 ts(1) last_ts]
    by (auto simp: keep_ts)
  show "posix_join (lead @ join_with ''/'' ts) [] = lead @ join_with ''/'' ts"
    using jne n1 by (simp add: posix_join_def)
  assume x: "xs \<noteq> []"
  let ?segs = "ts @ [] # xs"
  have segs1: "\<forall>s\<in>set ?segs. s = [] \<or> plain_segment s" using ts(2) xs by auto
  have segs_ne: "?segs \<noteq> []" by simp
  have hd_segs: "plain_segment (hd ?segs)" using hd_ts ts(1) by simp
  have last_segs: "plain_segment (last ?segs)" using xs x by simp
  have keep_xs: "filter (\<lambda>s. s \<noteq> []) xs = xs"
    using xs plain_segment_ends by (auto simp: filter_id_conv)
  have j1: "join_with ''/'' ?segs = join_with ''/'' ts @ ''/'' @ ''/'' @ join_with ''/'' xs"
    using ts(1) x by (simp add: join_with_append join_with_Cons)
  have j2: "join_with ''/'' (ts @ xs) = join_with ''/'' ts @ ''/'' @ join_with ''/'' xs"
    using ts(1) x by (rule join_with_append)
  have n2: "posix_normalize (lead @ join_with ''/'' ?segs) = lead @ join_with ''/'' (ts @ xs)"
    using lead posix_normalize_relative[OF segs1 segs_ne hd_segs last_segs]
      posix_normalize_absolute[OF segs1 segs_ne last_segs]
    by (auto simp: keep_ts keep_xs)
  have "posix_join (lead @ join_with ''/'' ts) (''/'' @ join_with ''/'' xs)
          = posix_normalize (lead @ join_with ''/'' ?segs)"
    using jne by (simp add: posix_join_def j1)
  then show "posix_join (lead @ join_with ''/'' ts) (''/'' @ join_with ''/'' xs)
             = lead @ join_with ''/'' ts @ ''/'' @ join_with ''/'' xs"
    by (simp add: n2 j2)
qed

text \<open>\<open>normalize\<close> gives back what it produced.\<close>

lemma plain_not_dots: "plain_segment s \<Longrightarrow> s \<noteq> ''..'' \<and> s \<noteq> ''.'' \<and> s \<noteq> []"
  by (simp add: plain_segment_def)

lemma plain_segmentI: "s \<noteq> [] \<Longrightarrow> s \<noteq> ''.'' \<Longrightarrow> s \<noteq> ''..'' \<Longrightarrow> CHR ''/'' \<notin> set s \<Longrightarrow> plain_segment s"
  by (simp add: plain_segment_def)

lemma normal_all_plain: "list_all plain_segment ss \<Longrightarrow> normal_segments a ss"
  by (cases ss) (auto dest: plain_not_dots)

lemma normal_snoc_plain:
  "normal_segments a xs \<Longrightarrow> plain_segment s \<Longrightarrow> normal_segments a (xs @ [s])"
  by (induction xs) (auto dest: plain_not_dots)

lemma normal_snoc_dots:
  "normal_segments a xs \<Longrightarrow> a \<Longrightarrow> xs = [] \<or> last xs = ''..'' \<Longrightarrow> normal_segments a (xs @ [''..''])"
proof (induction xs)
  case Nil
  then show ?case by simp
next
  case (Cons x xs)
  show ?case
  proof (cases "x = ''..''")
    case True
    then show ?thesis using Cons by (cases "xs = []") auto
  next
    case False
    then have p: "list_all plain_segment (x # xs)" using Cons.prems(1) by simp
    have "last (x # xs) \<in> set (x # xs)" by (rule last_in_set) simp
    then have "plain_segment (last (x # xs))" using p by (simp only: list_all_iff)
    then have "last (x # xs) \<noteq> ''..''" by (simp add: plain_not_dots)
    then show ?thesis using Cons.prems(3) by simp
  qed
qed

lemma normal_butlast: "normal_segments a (xs @ [t]) \<Longrightarrow> normal_segments a xs"
proof (induction xs)
  case Nil
  then show ?case by simp
next
  case (Cons x xs)
  then show ?case by (cases "x = ''..''") auto
qed

lemma normal_top_dots: "normal_segments a (xs @ [''..'']) \<Longrightarrow> a"
  by (induction xs) (auto dest: plain_not_dots split: if_splits)

lemma normalize_segments_normal:
  "normal_segments a (rev acc) \<Longrightarrow> \<forall>s\<in>set xs. CHR ''/'' \<notin> set s \<Longrightarrow>
     normal_segments a (normalize_segments a xs acc)"
proof (induction xs arbitrary: acc)
  case Nil
  then show ?case by simp
next
  case (Cons s ss)
  have rest: "\<forall>s\<in>set ss. CHR ''/'' \<notin> set s" using Cons.prems(2) by simp
  have free: "CHR ''/'' \<notin> set s" using Cons.prems(2) by simp
  consider (skip) "s = [] \<or> s = ''.''" | (up) "s = ''..''"
    | (seg) "s \<noteq> []" "s \<noteq> ''.''" "s \<noteq> ''..''" by blast
  then show ?case
  proof cases
    case skip
    then show ?thesis using Cons.IH[OF Cons.prems(1) rest] by auto
  next
    case up
    show ?thesis
    proof (cases acc)
      case Nil
      have "normal_segments a (rev (if a then [''..''] else []))" by simp
      then show ?thesis using Cons.IH[OF _ rest] up Nil by simp
    next
      case (Cons t ts)
      show ?thesis
      proof (cases "t = ''..''")
        case True
        have a: a using Cons.prems(1) normal_top_dots[of a "rev ts"] Cons True by simp
        have "normal_segments a (rev acc @ [''..''])"
          using Cons.prems(1) a Cons True by (intro normal_snoc_dots) simp_all
        then have "normal_segments a (rev (''..'' # acc))" by simp
        then show ?thesis using Cons.IH[OF _ rest] up Cons True by simp
      next
        case False
        have "normal_segments a (rev ts)"
          using Cons.prems(1) Cons normal_butlast[of a "rev ts" t] by simp
        then show ?thesis using Cons.IH[OF _ rest] up Cons False by simp
      qed
    qed
  next
    case seg
    have "plain_segment s" using seg free by (intro plain_segmentI)
    then have "normal_segments a (rev (s # acc))"
      using Cons.prems(1) by (simp add: normal_snoc_plain)
    then show ?thesis using Cons.IH[OF _ rest] seg by simp
  qed
qed

lemma split_on_elems_free: "\<forall>s\<in>set (split_on d p). d \<notin> set s"
proof (induction p)
  case Nil
  then show ?case by simp
next
  case (Cons c p)
  obtain w ws where w: "split_on d p = w # ws"
    using split_on_nonempty[of d p] by (cases "split_on d p") auto
  show ?case using Cons w by auto
qed

lemma dots_free: "CHR ''/'' \<notin> set ''..''"
  by simp

lemma normal_elems:
  "normal_segments a segs \<Longrightarrow> \<forall>s\<in>set segs. s \<noteq> [] \<and> CHR ''/'' \<notin> set s"
proof (induction segs)
  case Nil
  then show ?case by simp
next
  case (Cons s ss)
  show ?case
  proof (cases "s = ''..''")
    case True
    then have "normal_segments a ss" using Cons.prems by auto
    then have "\<forall>x\<in>set ss. x \<noteq> [] \<and> CHR ''/'' \<notin> set x" by (rule Cons.IH)
    then show ?thesis using True by simp
  next
    case False
    then have "list_all plain_segment (s # ss)" using Cons.prems by simp
    then have "\<forall>x\<in>set (s # ss). plain_segment x" by (simp only: list_all_iff)
    then show ?thesis using plain_segment_ends plain_segment_free by blast
  qed
qed

lemma normalize_segments_filter:
  "normalize_segments a xs acc = normalize_segments a (filter (\<lambda>s. s \<noteq> []) xs) acc"
proof (induction xs arbitrary: acc)
  case Nil
  then show ?case by simp
next
  case (Cons s ss)
  show ?case
  proof (cases "s = []")
    case True
    then show ?thesis using Cons.IH by simp
  next
    case False
    then have f: "filter (\<lambda>s. s \<noteq> []) (s # ss) = s # filter (\<lambda>s. s \<noteq> []) ss" by simp
    show ?thesis unfolding f
      by (cases acc) (simp_all add: Cons.IH)
  qed
qed

lemma normalize_normal_id:
  "normal_segments a segs \<Longrightarrow> \<forall>t\<in>set acc. t = ''..'' \<Longrightarrow>
     normalize_segments a segs acc = rev acc @ segs"
proof (induction segs arbitrary: acc)
  case Nil
  then show ?case by simp
next
  case (Cons s ss)
  show ?case
  proof (cases "s = ''..''")
    case True
    then have a: a and n: "normal_segments a ss" using Cons.prems(1) by auto
    have step: "normalize_segments a (s # ss) acc = normalize_segments a ss (''..'' # acc)"
      using True a Cons.prems(2) by (cases acc) simp_all
    have "\<forall>t\<in>set (''..'' # acc). t = ''..''" using Cons.prems(2) by simp
    then show ?thesis using Cons.IH[OF n] step True by simp
  next
    case False
    then have "list_all plain_segment (s # ss)" using Cons.prems(1) by simp
    then have "\<forall>x\<in>set (s # ss). x = [] \<or> plain_segment x" by (simp only: list_all_iff) blast
    then have "normalize_segments a (s # ss) acc
                 = rev acc @ filter (\<lambda>x. x \<noteq> []) (s # ss)"
      by (rule normalize_segments_plain)
    moreover have "filter (\<lambda>x. x \<noteq> []) (s # ss) = s # ss"
      using normal_elems[OF Cons.prems(1)] by (simp only: filter_id_conv) blast
    ultimately show ?thesis by simp
  qed
qed

lemma normal_join_ends:
  assumes "normal_segments a segs" "segs \<noteq> []"
  shows "join_with ''/'' segs \<noteq> []"
    and "hd (join_with ''/'' segs) \<noteq> CHR ''/''"
    and "last (join_with ''/'' segs) \<noteq> CHR ''/''"
proof -
  have e: "\<forall>s\<in>set segs. s \<noteq> [] \<and> CHR ''/'' \<notin> set s" using assms(1) by (rule normal_elems)
  have h: "hd segs \<in> set segs" and l: "last segs \<in> set segs" using assms(2) by simp_all
  have hne: "hd segs \<noteq> []" and lne: "last segs \<noteq> []" using e h l by blast+
  have hf: "hd (hd segs) \<noteq> CHR ''/''"
    using e h hne by (cases "hd segs") auto
  have lf: "last (last segs) \<noteq> CHR ''/''"
    using e l lne by (cases "last segs" rule: rev_cases) auto
  show "join_with ''/'' segs \<noteq> []" using join_with_last[OF assms(2) lne] by simp
  show "hd (join_with ''/'' segs) \<noteq> CHR ''/''" using join_with_hd[OF assms(2) hne] hf by simp
  show "last (join_with ''/'' segs) \<noteq> CHR ''/''" using join_with_last[OF assms(2) lne] lf by simp
qed

lemma posix_normalize_small:
  "posix_normalize ''.'' = ''.''" "posix_normalize ''./'' = ''./''" "posix_normalize ''/'' = ''/''"
  by code_simp+

lemma posix_normalize_assembled:
  assumes nf: "normal_segments (\<not> isAbsolute) segs" and ne: "segs \<noteq> []"
  shows "posix_normalize ((if isAbsolute then ''/'' else [])
                          @ join_with ''/'' segs @ (if trailing then ''/'' else []))
           = (if isAbsolute then ''/'' else [])
             @ join_with ''/'' segs @ (if trailing then ''/'' else [])"
proof -
  let ?pre = "if isAbsolute then [[]] else ([]::string list)"
  let ?post = "if trailing then [[]] else ([]::string list)"
  let ?L = "?pre @ segs @ ?post"
  let ?q = "(if isAbsolute then ''/'' else []) @ join_with ''/'' segs @ (if trailing then ''/'' else [])"
  have e: "\<forall>s\<in>set segs. s \<noteq> [] \<and> CHR ''/'' \<notin> set s" using nf by (rule normal_elems)
  have b: "join_with ''/'' segs \<noteq> []" "hd (join_with ''/'' segs) \<noteq> CHR ''/''"
    "last (join_with ''/'' segs) \<noteq> CHR ''/''"
    using normal_join_ends[OF nf ne] by blast+
  have j1: "join_with ''/'' (segs @ ?post) = join_with ''/'' segs @ (if trailing then ''/'' else [])"
    using ne by (simp add: join_with_append)
  have j: "join_with ''/'' ?L = ?q"
  proof (cases isAbsolute)
    case True
    have "segs @ ?post \<noteq> []" using ne by simp
    then have "join_with ''/'' ([] # (segs @ ?post)) = [] @ ''/'' @ join_with ''/'' (segs @ ?post)"
      by (rule join_with_Cons)
    then show ?thesis using True j1 by simp
  next
    case False
    then show ?thesis using j1 by simp
  qed
  have Lfree: "\<forall>s\<in>set ?L. CHR ''/'' \<notin> set s" using e by auto
  have Lne: "?L \<noteq> []" using ne by simp
  have sp: "split_on CHR ''/'' ?q = ?L"
    using split_on_join[OF Lne Lfree] by (simp only: j)
  have keep: "filter (\<lambda>s. s \<noteq> []) ?L = segs"
    using e by (auto simp: filter_id_conv)
  have ns: "normalize_segments (\<not> isAbsolute) ?L [] = segs"
    using normalize_segments_filter[of "\<not> isAbsolute" ?L "[]"]
      normalize_normal_id[OF nf, of "[]"] by (simp only: keep) simp
  have qne: "?q \<noteq> []" using b(1) by simp
  have qh: "(hd ?q = CHR ''/'') = isAbsolute" using b(1,2) by simp
  have ql: "(last ?q = CHR ''/'') = trailing" using b(1,3) by simp
  have "posix_normalize ?q
          = (let body = join_with ''/'' (normalize_segments (\<not> isAbsolute) ?L [])
             in if body = []
                then (if isAbsolute then ''/'' else if trailing then ''./'' else ''.'')
                else (if isAbsolute then ''/'' else []) @ body @ (if trailing then ''/'' else []))"
    unfolding posix_normalize_def Let_def sp qh ql using qne by (simp only: if_False)
  then show ?thesis using b(1) by (simp only: ns Let_def if_False)
qed

lemma posix_normalize_idem: "posix_normalize (posix_normalize p) = posix_normalize p"
proof (cases "p = []")
  case True
  then show ?thesis by (simp add: posix_normalize_def posix_normalize_small[unfolded posix_normalize_def])
next
  case False
  let ?abs = "hd p = CHR ''/''"
  let ?tr = "last p = CHR ''/''"
  let ?segs = "normalize_segments (\<not> ?abs) (split_on CHR ''/'' p) []"
  have nf: "normal_segments (\<not> ?abs) ?segs"
    using split_on_elems_free[of "CHR ''/''" p] by (intro normalize_segments_normal) simp_all
  show ?thesis
  proof (cases "?segs = []")
    case True
    then have "posix_normalize p = (if ?abs then ''/'' else if ?tr then ''./'' else ''.'')"
      using False by (simp add: posix_normalize_def)
    then show ?thesis using posix_normalize_small by auto
  next
    case ne: False
    have b: "join_with ''/'' ?segs \<noteq> []" using normal_join_ends(1)[OF nf ne] .
    have q: "posix_normalize p
               = (if ?abs then ''/'' else []) @ join_with ''/'' ?segs @ (if ?tr then ''/'' else [])"
      using False b by (simp add: posix_normalize_def Let_def)
    show ?thesis unfolding q by (rule posix_normalize_assembled[OF nf ne])
  qed
qed

subsection \<open>The alias loop\<close>

lemma alias_loop_find:
  "n \<le> length (moduleAliasNames self) \<Longrightarrow>
   alias_loop P self request parent n =
     (case find (isPathMatchesAlias request) (rev (take n (moduleAliasNames self))) of
        None \<Rightarrow> Inr request
      | Some alias \<Rightarrow> apply_alias P self request parent alias)"
proof (induction n)
  case 0
  then show ?case by simp
next
  case (Suc n)
  then have n: "n < length (moduleAliasNames self)" by simp
  then have t: "take (Suc n) (moduleAliasNames self) = take n (moduleAliasNames self) @ [moduleAliasNames self ! n]"
    by (simp add: take_Suc_conv_app_nth)
  show ?case using Suc.IH n by (simp add: t Let_def)
qed

lemma alias_loop_first_match:
  "alias_loop P self request parent (length (moduleAliasNames self)) =
     (case first_matching_alias self request of
        None \<Rightarrow> Inr request
      | Some alias \<Rightarrow> apply_alias P self request parent alias)"
  by (simp add: alias_loop_find first_matching_alias_def)

lemma find_rev_sorted:
  "sorted xs \<Longrightarrow> find Q (rev xs) = Some (a::string) \<Longrightarrow>
     Q a \<and> a \<in> set xs \<and> (\<forall>b\<in>set xs. Q b \<longrightarrow> b \<le> a)"
proof (induction xs rule: rev_induct)
  case Nil
  then show ?case by simp
next
  case (snoc x xs)
  then have s: "sorted xs" and le: "\<forall>y\<in>set xs. y \<le> x"
    by (auto simp: sorted_append)
  show ?case
  proof (cases "Q x")
    case True
    then show ?thesis using snoc.prems le by auto
  next
    case False
    then have "find Q (rev xs) = Some a" using snoc.prems by simp
    then show ?thesis using snoc.IH s False by auto
  qed
qed

lemma find_rev_None: "find Q (rev xs) = None \<longleftrightarrow> (\<forall>b\<in>set xs. \<not> Q b)"
  by (auto simp: find_None_iff)

lemma find_rev_exists: "b \<in> set xs \<Longrightarrow> Q b \<Longrightarrow> \<exists>a. find Q (rev xs) = Some a"
  by (cases "find Q (rev xs)") (auto simp: find_None_iff)

lemma matches_prefix: "isPathMatchesAlias r a \<Longrightarrow> prefix a r"
  by (simp add: isPathMatchesAlias_iff)

lemma matching_le_prefix:
  assumes "isPathMatchesAlias r a" "isPathMatchesAlias r b" "b \<le> a"
  shows "prefix b a"
proof -
  have "prefix a r" "prefix b r" using assms by (auto dest: matches_prefix)
  then consider "prefix b a" | "strict_prefix a b"
    by (metis prefix_same_cases strict_prefix_def)
  then show ?thesis
  proof cases
    case 1 then show ?thesis .
  next
    case 2
    then have "a < b" by (rule strict_prefix_less)
    then show ?thesis using assms(3) by simp
  qed
qed

lemma first_matching_alias_longest:
  assumes "sorted (moduleAliasNames self)" "first_matching_alias self r = Some a"
  shows "a \<in> set (moduleAliasNames self) \<and> isPathMatchesAlias r a
         \<and> (\<forall>b\<in>set (moduleAliasNames self). isPathMatchesAlias r b \<longrightarrow> prefix b a)"
  using find_rev_sorted[OF assms(1), of "isPathMatchesAlias r" a] assms(2)
  by (auto simp: first_matching_alias_def intro: matching_le_prefix)

lemma resolveFilename_returned:
  "returned (resolveFilename P self request parent args) =
     (case alias_loop P self request parent (length (moduleAliasNames self)) of
        Inl e \<Rightarrow> Inl e
      | Inr request' \<Rightarrow>
          Inr (oldResolveFilename self request'
                 (map_option (\<lambda>p. p\<lparr> paths := Some (repaired_paths self parent) \<rparr>) parent) args))"
  by (simp add: resolveFilename_def Let_def split: sum.splits)


lemma alias_table_ok_sorted: "alias_table_ok self \<Longrightarrow> sorted (moduleAliasNames self)"
  by (simp add: alias_table_ok_def)

lemma first_matching_alias_exists:
  "b \<in> set (moduleAliasNames self) \<Longrightarrow> isPathMatchesAlias r b \<Longrightarrow>
     \<exists>a. first_matching_alias self r = Some a"
  unfolding first_matching_alias_def by (rule find_rev_exists)

lemma first_matching_alias_None:
  "first_matching_alias self r = None \<longleftrightarrow>
     (\<forall>b\<in>set (moduleAliasNames self). \<not> isPathMatchesAlias r b)"
  unfolding first_matching_alias_def by (rule find_rev_None)

lemma first_matching_alias_greatest:
  assumes s: "sorted (moduleAliasNames self)"
    and a: "a \<in> set (moduleAliasNames self)" and m: "isPathMatchesAlias r a"
    and g: "\<forall>b\<in>set (moduleAliasNames self). a < b \<longrightarrow> \<not> isPathMatchesAlias r b"
  shows "first_matching_alias self r = Some a"
proof -
  obtain a' where f: "first_matching_alias self r = Some a'"
    using first_matching_alias_exists[OF a m] by blast
  from first_matching_alias_longest[OF s f]
  have a': "a' \<in> set (moduleAliasNames self)" "isPathMatchesAlias r a'" "prefix a a'"
    using a m by auto
  have "a \<le> a'" using a'(3) by (rule prefix_le)
  moreover have "\<not> a < a'" using g a'(1,2) by blast
  ultimately have "a' = a" by simp
  then show ?thesis using f by simp
qed

lemma apply_alias_Static:
  "js_get (moduleAliases self) a = Some (Static t) \<Longrightarrow>
     apply_alias P self r parent a = Inr (Path_join P t (substr r (length a)))"
  by (simp add: apply_alias_def)


subsection \<open>Longest match\<close>

text \<open>
  Claim C1, as amended. In a table whose name index is the sorted key list, let \<open>a1\<close>
  and \<open>a2\<close> be registered aliases with \<open>a1\<close> a proper prefix of \<open>a2\<close>, and let the
  request match \<open>a2\<close>. The descending walk stops at one alias \<open>a\<close>, the longest
  registered alias that matches the request: it matches the request, every matching
  alias is a prefix of it, every greater name was rejected, it is \<open>a2\<close> or an extension
  of \<open>a2\<close> and so never \<open>a1\<close>, and it is \<open>a2\<close> itself when no registered extension of
  \<open>a2\<close> matches, as in a table of just the two. The loop applies that one alias and
  nothing else: the request handed on is the result of the single replacement at \<open>a\<close>,
  which for a static target is the target joined with the rest of the request.
\<close>

theorem longest_alias_wins:
  assumes ok: "alias_table_ok self"
    and a1: "a1 \<in> set (moduleAliasNames self)"
    and a2: "a2 \<in> set (moduleAliasNames self)"
    and sp: "strict_prefix a1 a2"
    and m: "isPathMatchesAlias request a2"
  shows "\<exists>a. first_matching_alias self request = Some a
           \<and> a \<in> set (moduleAliasNames self) \<and> isPathMatchesAlias request a
           \<and> prefix a2 a \<and> a \<noteq> a1
           \<and> (\<forall>b\<in>set (moduleAliasNames self). isPathMatchesAlias request b \<longrightarrow> prefix b a)
           \<and> (\<forall>b\<in>set (moduleAliasNames self). a < b \<longrightarrow> \<not> isPathMatchesAlias request b)
           \<and> ((\<forall>b\<in>set (moduleAliasNames self). isPathMatchesAlias request b \<longrightarrow> prefix b a2)
                \<longrightarrow> a = a2)
           \<and> (set (moduleAliasNames self) = {a1, a2} \<longrightarrow> a = a2)
           \<and> alias_loop P self request parent (length (moduleAliasNames self))
               = apply_alias P self request parent a
           \<and> returned (resolveFilename P self request parent args)
               = (case apply_alias P self request parent a of
                    Inl e \<Rightarrow> Inl e
                  | Inr request' \<Rightarrow>
                      Inr (oldResolveFilename self request'
                             (map_option (\<lambda>p. p\<lparr> paths := Some (repaired_paths self parent) \<rparr>) parent)
                             args))
           \<and> (\<forall>t. js_get (moduleAliases self) a = Some (Static t)
                \<longrightarrow> apply_alias P self request parent a
                      = Inr (Path_join P t (substr request (length a))))"
proof -
  have s: "sorted (moduleAliasNames self)" using ok by (rule alias_table_ok_sorted)
  obtain a where f: "first_matching_alias self request = Some a"
    using first_matching_alias_exists[OF a2 m] by blast
  from first_matching_alias_longest[OF s f]
  have mem: "a \<in> set (moduleAliasNames self)" and ma: "isPathMatchesAlias request a"
    and longest: "\<forall>b\<in>set (moduleAliasNames self). isPathMatchesAlias request b \<longrightarrow> prefix b a"
    by auto
  have p2: "prefix a2 a" using longest a2 m by blast
  have ne: "a \<noteq> a1" using p2 sp by (auto simp: strict_prefix_def)
  have greater: "\<forall>b\<in>set (moduleAliasNames self). a < b \<longrightarrow> \<not> isPathMatchesAlias request b"
  proof (intro ballI impI notI)
    fix b assume "b \<in> set (moduleAliasNames self)" "a < b" "isPathMatchesAlias request b"
    then have "prefix b a" using longest by blast
    then have "b \<le> a" by (rule prefix_le)
    then show False using \<open>a < b\<close> by simp
  qed
  have exact: "(\<forall>b\<in>set (moduleAliasNames self). isPathMatchesAlias request b \<longrightarrow> prefix b a2)
                \<longrightarrow> a = a2"
    using mem ma p2 by (auto intro: prefix_order.antisym)
  have two: "set (moduleAliasNames self) = {a1, a2} \<longrightarrow> a = a2"
    using mem ne by blast
  have loop: "alias_loop P self request parent (length (moduleAliasNames self))
               = apply_alias P self request parent a"
    by (simp add: alias_loop_first_match f)
  have ret: "returned (resolveFilename P self request parent args)
               = (case apply_alias P self request parent a of
                    Inl e \<Rightarrow> Inl e
                  | Inr request' \<Rightarrow>
                      Inr (oldResolveFilename self request'
                             (map_option (\<lambda>p. p\<lparr> paths := Some (repaired_paths self parent) \<rparr>) parent)
                             args))"
    by (simp add: resolveFilename_returned loop)
  show ?thesis
    using f mem ma p2 ne longest greater exact two loop ret apply_alias_Static by blast
qed

theorem longest_alias_wins_witness:
  "alias_table_ok (addAlias (addAlias example_instance ''@a'' (Static ''/one'')) ''@a/sub'' (Static ''/two''))
   \<and> ''@a'' \<in> set (moduleAliasNames (addAlias (addAlias example_instance ''@a'' (Static ''/one'')) ''@a/sub'' (Static ''/two'')))
   \<and> ''@a/sub'' \<in> set (moduleAliasNames (addAlias (addAlias example_instance ''@a'' (Static ''/one'')) ''@a/sub'' (Static ''/two'')))
   \<and> strict_prefix ''@a'' ''@a/sub''
   \<and> isPathMatchesAlias ''@a/sub/file'' ''@a/sub''
   \<and> first_matching_alias (addAlias (addAlias example_instance ''@a'' (Static ''/one'')) ''@a/sub'' (Static ''/two'')) ''@a/sub/file'' = Some ''@a/sub''
   \<and> returned (resolveFilename (posix_path ''/app'')
        (addAlias (addAlias example_instance ''@a'' (Static ''/one'')) ''@a/sub'' (Static ''/two''))
        ''@a/sub/file'' None True) = Inr (''/two/file'', None, True)"
proof -
  let ?S = "addAlias (addAlias example_instance ''@a'' (Static ''/one'')) ''@a/sub'' (Static ''/two'')"
  have h1: "alias_table_ok ?S" by code_simp
  have names: "moduleAliasNames ?S = [''@a'', ''@a/sub'']" by code_simp
  have h2: "''@a'' \<in> set (moduleAliasNames ?S)" by (simp add: names)
  have h3: "''@a/sub'' \<in> set (moduleAliasNames ?S)" by (simp add: names)
  have h4: "strict_prefix ''@a'' ''@a/sub''" by code_simp
  have h5: "isPathMatchesAlias ''@a/sub/file'' ''@a/sub''" by code_simp
  have tgt: "js_get (moduleAliases ?S) ''@a/sub'' = Some (Static ''/two'')"
    by (simp add: addAlias_def js_put_def js_get_def example_instance_def new_instance_def Let_def)
  have only: "\<forall>b\<in>set (moduleAliasNames ?S). isPathMatchesAlias ''@a/sub/file'' b \<longrightarrow> prefix b ''@a/sub''"
    by (simp add: names)
  have j: "Path_join (posix_path ''/app'') ''/two'' (substr ''@a/sub/file'' (length ''@a/sub'')) = ''/two/file''"
    by code_simp
  have o: "oldResolveFilename ?S = example_resolver"
    by (simp add: addAlias_def example_instance_def new_instance_def Let_def)
  from longest_alias_wins[OF h1 h2 h3 h4 h5, of "posix_path ''/app''" None True]
  obtain a where a: "first_matching_alias ?S ''@a/sub/file'' = Some a"
    and ex: "(\<forall>b\<in>set (moduleAliasNames ?S). isPathMatchesAlias ''@a/sub/file'' b \<longrightarrow> prefix b ''@a/sub'')
               \<longrightarrow> a = ''@a/sub''"
    and ret: "returned (resolveFilename (posix_path ''/app'') ?S ''@a/sub/file'' None True)
               = (case apply_alias (posix_path ''/app'') ?S ''@a/sub/file'' None a of
                    Inl e \<Rightarrow> Inl e
                  | Inr request' \<Rightarrow> Inr (oldResolveFilename ?S request' (map_option (\<lambda>p. p\<lparr> paths := Some (repaired_paths ?S None) \<rparr>) None) True))"
    and st: "\<forall>t. js_get (moduleAliases ?S) a = Some (Static t)
                \<longrightarrow> apply_alias (posix_path ''/app'') ?S ''@a/sub/file'' None a
                      = Inr (Path_join (posix_path ''/app'') t (substr ''@a/sub/file'' (length a)))"
    by blast
  have a2: "a = ''@a/sub''" using ex only by blast
  have "apply_alias (posix_path ''/app'') ?S ''@a/sub/file'' None ''@a/sub'' = Inr ''/two/file''"
    using st tgt j unfolding a2 by simp
  then have "returned (resolveFilename (posix_path ''/app'') ?S ''@a/sub/file'' None True)
               = Inr (''/two/file'', None, True)"
    using ret o unfolding a2 by (simp add: example_resolver_def)
  then show ?thesis using h1 h2 h3 h4 h5 a a2 by simp
qed

text \<open>
  The claim as stated fails when the table holds a third alias that extends the longer
  one and matches too: with \<open>@a\<close>, \<open>@a/sub\<close> and \<open>@a/sub/file\<close> registered, the request
  \<open>@a/sub/file\<close> matches the longer alias \<open>@a/sub\<close> of the pair \<open>@a\<close>, \<open>@a/sub\<close>, and is
  rewritten with the target of \<open>@a/sub/file\<close>, not with that of \<open>@a/sub\<close>.
\<close>

theorem longest_alias_counterexample:
  "alias_table_ok
     (addAlias (addAlias (addAlias example_instance ''@a'' (Static ''/one''))
        ''@a/sub'' (Static ''/two'')) ''@a/sub/file'' (Static ''/three''))
   \<and> moduleAliasNames
       (addAlias (addAlias (addAlias example_instance ''@a'' (Static ''/one''))
          ''@a/sub'' (Static ''/two'')) ''@a/sub/file'' (Static ''/three''))
     = [''@a'', ''@a/sub'', ''@a/sub/file'']
   \<and> strict_prefix ''@a'' ''@a/sub''
   \<and> isPathMatchesAlias ''@a/sub/file'' ''@a/sub''
   \<and> returned (resolveFilename (posix_path ''/app'')
        (addAlias (addAlias (addAlias example_instance ''@a'' (Static ''/one''))
           ''@a/sub'' (Static ''/two'')) ''@a/sub/file'' (Static ''/three''))
        ''@a/sub/file'' None True)
     = Inr (''/three'', None, True)
   \<and> Path_join (posix_path ''/app'') ''/two'' (substr ''@a/sub/file'' (length ''@a/sub''))
     = ''/two/file''
   \<and> ''/three'' \<noteq> ''/two/file''"
  by code_simp

subsection \<open>The boundary match and static targets\<close>

lemma set_Object_keys: "set (Object_keys obj) = fst ` set obj"
  by (auto simp: Object_keys_def Let_def)

lemma js_get_Some_key: "js_get obj k = Some v \<Longrightarrow> k \<in> fst ` set obj"
  by (auto simp: js_get_def dest: map_of_SomeD intro: rev_image_eqI)

lemma alias_table_ok_names:
  "alias_table_ok self \<Longrightarrow> set (moduleAliasNames self) = fst ` set (moduleAliases self)"
  by (simp add: alias_table_ok_def set_Object_keys)

lemma registered_in_index:
  "alias_table_ok self \<Longrightarrow> js_get (moduleAliases self) a = Some v \<Longrightarrow>
     a \<in> set (moduleAliasNames self)"
  by (simp add: alias_table_ok_names js_get_Some_key)

lemma boundary_rest: "rest = [] \<or> hd rest = CHR ''/'' \<Longrightarrow> isPathMatchesAlias (a @ rest) a"
  by (cases rest) (auto simp: isPathMatchesAlias_cases)

lemma no_boundary: "c \<noteq> CHR ''/'' \<Longrightarrow> \<not> isPathMatchesAlias (a @ c # rest0) a"
  by (auto simp: isPathMatchesAlias_cases)

text \<open>
  Claim C2, as amended. The predicate holds iff the request starts with the alias and
  either has the alias's length or has \<open>/\<close> right after it. For a registered static
  alias \<open>a\<close> with target \<open>t\<close> and a request \<open>a @ rest\<close> on the boundary (\<open>rest\<close> empty or
  starting with \<open>/\<close>), when no greater registered name also matches, the captured
  resolver receives \<open>Path.join(t, rest)\<close>; a request that no registered name matches
  is handed on unchanged, and \<open>a\<close> followed by a character other than \<open>/\<close> does not
  match \<open>a\<close>. Under \<open>path.posix\<close>, for a target \<open>t\<close> that is a non-empty sequence of
  plain segments (with or without a leading \<open>/\<close>) and for plain segments \<open>x\<close>, \<open>y\<close>, the
  joins \<open>Path.join(t, '')\<close>, \<open>Path.join(t, '/x')\<close>, \<open>Path.join(t, '/x/y')\<close> are \<open>t\<close>,
  \<open>t/x\<close>, \<open>t/x/y\<close>; a plain segment is non-empty, has no \<open>/\<close> and is neither \<open>.\<close> nor
  \<open>..\<close>.
\<close>

theorem boundary_match_and_static_rewrite:
  assumes ok: "alias_table_ok self"
  shows "(isPathMatchesAlias request alias \<longleftrightarrow>
            prefix alias request
            \<and> (length request = length alias
                \<or> (length alias < length request \<and> request ! length alias = CHR ''/'')))
       \<and> (js_get (moduleAliases self) a = Some (Static t)
            \<and> (rest = [] \<or> hd rest = CHR ''/'')
            \<and> (\<forall>b\<in>set (moduleAliasNames self). a < b \<longrightarrow> \<not> isPathMatchesAlias (a @ rest) b)
          \<longrightarrow> returned (resolveFilename P self (a @ rest) parent args)
                = Inr (oldResolveFilename self (Path_join P t rest)
                         (map_option (\<lambda>p. p\<lparr> paths := Some (repaired_paths self parent) \<rparr>) parent)
                         args))
       \<and> ((\<forall>b\<in>set (moduleAliasNames self). \<not> isPathMatchesAlias request b)
          \<longrightarrow> returned (resolveFilename P self request parent args)
                = Inr (oldResolveFilename self request
                         (map_option (\<lambda>p. p\<lparr> paths := Some (repaired_paths self parent) \<rparr>) parent)
                         args))
       \<and> (c \<noteq> CHR ''/'' \<longrightarrow> \<not> isPathMatchesAlias (a @ c # rest0) a)
       \<and> ((lead = [] \<or> lead = ''/'') \<and> ts \<noteq> [] \<and> xs \<noteq> []
            \<and> (\<forall>s\<in>set ts. plain_segment s) \<and> (\<forall>s\<in>set xs. plain_segment s)
          \<longrightarrow> Path_join (posix_path workdir) (lead @ join_with ''/'' ts) []
                = lead @ join_with ''/'' ts
              \<and> Path_join (posix_path workdir) (lead @ join_with ''/'' ts)
                    (''/'' @ join_with ''/'' xs)
                = lead @ join_with ''/'' ts @ ''/'' @ join_with ''/'' xs)"
proof (intro conjI impI)
  show "isPathMatchesAlias request alias \<longleftrightarrow>
            prefix alias request
            \<and> (length request = length alias
                \<or> (length alias < length request \<and> request ! length alias = CHR ''/''))"
    by (rule isPathMatchesAlias_iff)
next
  assume h: "js_get (moduleAliases self) a = Some (Static t)
            \<and> (rest = [] \<or> hd rest = CHR ''/'')
            \<and> (\<forall>b\<in>set (moduleAliasNames self). a < b \<longrightarrow> \<not> isPathMatchesAlias (a @ rest) b)"
  then have reg: "a \<in> set (moduleAliasNames self)" using ok by (auto intro: registered_in_index)
  have m: "isPathMatchesAlias (a @ rest) a" using h by (auto intro: boundary_rest)
  have f: "first_matching_alias self (a @ rest) = Some a"
    using first_matching_alias_greatest[OF alias_table_ok_sorted[OF ok] reg m] h by blast
  have "apply_alias P self (a @ rest) parent a = Inr (Path_join P t rest)"
    using h by (simp add: apply_alias_Static substr_def)
  then show "returned (resolveFilename P self (a @ rest) parent args)
                = Inr (oldResolveFilename self (Path_join P t rest)
                         (map_option (\<lambda>p. p\<lparr> paths := Some (repaired_paths self parent) \<rparr>) parent)
                         args)"
    by (simp add: resolveFilename_returned alias_loop_first_match f)
next
  assume "\<forall>b\<in>set (moduleAliasNames self). \<not> isPathMatchesAlias request b"
  then have "first_matching_alias self request = None"
    by (simp add: first_matching_alias_None)
  then show "returned (resolveFilename P self request parent args)
                = Inr (oldResolveFilename self request
                         (map_option (\<lambda>p. p\<lparr> paths := Some (repaired_paths self parent) \<rparr>) parent)
                         args)"
    by (simp add: resolveFilename_returned alias_loop_first_match)
next
  assume "c \<noteq> CHR ''/''"
  then show "\<not> isPathMatchesAlias (a @ c # rest0) a" by (rule no_boundary)
next
  assume h: "(lead = [] \<or> lead = ''/'') \<and> ts \<noteq> [] \<and> xs \<noteq> []
            \<and> (\<forall>s\<in>set ts. plain_segment s) \<and> (\<forall>s\<in>set xs. plain_segment s)"
  then have l: "lead = [] \<or> lead = ''/''" and t: "ts \<noteq> []" and x: "xs \<noteq> []"
    and pt: "\<forall>s\<in>set ts. plain_segment s" and px: "\<forall>s\<in>set xs. plain_segment s"
    by blast+
  show "Path_join (posix_path workdir) (lead @ join_with ''/'' ts) [] = lead @ join_with ''/'' ts"
    using posix_join_plain(1)[OF l t pt px] by (simp add: posix_path_def)
  show "Path_join (posix_path workdir) (lead @ join_with ''/'' ts) (''/'' @ join_with ''/'' xs)
          = lead @ join_with ''/'' ts @ ''/'' @ join_with ''/'' xs"
    using posix_join_plain(2)[OF l t pt px x] by (simp add: posix_path_def)
qed

text \<open>Unfolding the concrete setting and the table operations.\<close>

lemmas example_defs =
  example_instance_def new_instance_def example_resolver_def example_module_def
  example_nodeModulePaths_def

lemmas table_defs = addAlias_def js_put_def js_get_def Let_def

theorem boundary_match_and_static_rewrite_witness:
  "alias_table_ok (addAlias example_instance ''@client'' (Static ''/src/client''))
   \<and> js_get (moduleAliases (addAlias example_instance ''@client'' (Static ''/src/client''))) ''@client''
       = Some (Static ''/src/client'')
   \<and> isPathMatchesAlias ''@client/x/y'' ''@client''
   \<and> returned (resolveFilename (posix_path ''/app'')
        (addAlias example_instance ''@client'' (Static ''/src/client'')) (''@client'' @ ''/x/y'') None True)
       = Inr (''/src/client/x/y'', None, True)
   \<and> returned (resolveFilename (posix_path ''/app'')
        (addAlias example_instance ''@client'' (Static ''/src/client'')) ''@clientb'' None True)
       = Inr (''@clientb'', None, True)"
proof -
  let ?S = "addAlias example_instance ''@client'' (Static ''/src/client'')"
  let ?P = "posix_path ''/app''"
  have ok: "alias_table_ok ?S" by code_simp
  have names: "moduleAliasNames ?S = [''@client'']" by code_simp
  have reg: "js_get (moduleAliases ?S) ''@client'' = Some (Static ''/src/client'')"
    by (simp add: table_defs example_defs)
  have m: "isPathMatchesAlias ''@client/x/y'' ''@client''" by code_simp
  have old: "oldResolveFilename ?S = example_resolver"
    by (simp add: table_defs example_defs)
  have j: "Path_join ?P ''/src/client'' ''/x/y'' = ''/src/client/x/y''" by code_simp
  have g: "\<forall>b\<in>set (moduleAliasNames ?S). ''@client'' < b \<longrightarrow> \<not> isPathMatchesAlias (''@client'' @ ''/x/y'') b"
    by (simp add: names)
  have n: "\<forall>b\<in>set (moduleAliasNames ?S). \<not> isPathMatchesAlias ''@clientb'' b"
    unfolding names by code_simp
  note main = boundary_match_and_static_rewrite[OF ok, where a = "''@client''" and t = "''/src/client''"
      and rest = "''/x/y''" and P = ?P and parent = None and args = True and request = "''@clientb''"]
  have r1: "returned (resolveFilename ?P ?S (''@client'' @ ''/x/y'') None True)
       = Inr (''/src/client/x/y'', None, True)"
    using main reg g by (simp add: old j example_resolver_def)
  have r2: "returned (resolveFilename ?P ?S ''@clientb'' None True) = Inr (''@clientb'', None, True)"
    using main n by (simp add: old example_resolver_def)
  show ?thesis using ok reg m r1 r2 by blast
qed

text \<open>
  The claim as stated fails: \<open>Path.join\<close> normalizes, so with the target \<open>.\<close> the
  request \<open>@root/lib\<close> becomes \<open>lib\<close> and not \<open>./lib\<close>, and with the target \<open>/t\<close> the
  request \<open>a/..\<close> becomes \<open>/\<close> and not \<open>/t/..\<close>; with \<open>a\<close> and \<open>a/x\<close> both registered
  the request \<open>a/x\<close> is rewritten by \<open>a/x\<close>; and with \<open>a\<close> and \<open>ab\<close> both registered the
  request \<open>ab\<close> is not handed on unchanged.
\<close>

theorem static_rewrite_counterexample:
  "returned (resolveFilename (posix_path ''/app'')
       (addAlias example_instance ''@root'' (Static ''.'')) ''@root/lib'' None True)
     = Inr (''lib'', None, True)
   \<and> ''lib'' \<noteq> ''.'' @ ''/lib''
   \<and> returned (resolveFilename (posix_path ''/app'')
       (addAlias example_instance ''a'' (Static ''/t'')) ''a/..'' None True)
     = Inr (''/'', None, True)
   \<and> ''/'' \<noteq> ''/t'' @ ''/..''
   \<and> returned (resolveFilename (posix_path ''/app'')
       (addAlias (addAlias example_instance ''a'' (Static ''/t'')) ''a/x'' (Static ''/u''))
       ''a/x'' None True)
     = Inr (''/u'', None, True)
   \<and> ''/u'' \<noteq> ''/t'' @ ''/x''
   \<and> returned (resolveFilename (posix_path ''/app'')
       (addAlias (addAlias example_instance ''a'' (Static ''/t'')) ''ab'' (Static ''/u''))
       ''ab'' None True)
     = Inr (''/u'', None, True)
   \<and> ''/u'' \<noteq> ''ab''"
  by code_simp

subsection \<open>The directory-list builder\<close>

lemma inside_dependency_directory_sublist:
  "spec_inside_dependency_directory from \<Longrightarrow> sublist ''node_modules'' from"
  unfolding spec_inside_dependency_directory_def by (rule split_on_sublist)

lemma nodeModulePaths_eq:
  "nodeModulePaths self from =
     (if sublist ''node_modules'' from then oldNodeModulePaths self from
      else modulePaths self @ oldNodeModulePaths self from)"
  by (simp add: nodeModulePaths_def Let_def indexOf_absent)

lemma addPath_captured:
  "oldNodeModulePaths (addPath P self p) = oldNodeModulePaths self"
  "oldResolveFilename (addPath P self p) = oldResolveFilename self"
  by (simp_all add: addPath_def Let_def)

lemma addAlias_captured:
  "oldNodeModulePaths (addAlias self a t) = oldNodeModulePaths self"
  "oldResolveFilename (addAlias self a t) = oldResolveFilename self"
  by (simp_all add: addAlias_def Let_def)

lemma resolveFilename_instance:
  "oldNodeModulePaths (instance_after (resolveFilename P self r parent args))
     = oldNodeModulePaths self"
  "oldResolveFilename (instance_after (resolveFilename P self r parent args))
     = oldResolveFilename self"
  "modulePaths (instance_after (resolveFilename P self r parent args)) = modulePaths self"
  "moduleAliases (instance_after (resolveFilename P self r parent args)) = moduleAliases self"
  "moduleAliasNames (instance_after (resolveFilename P self r parent args))
     = moduleAliasNames self"
  by (simp_all add: resolveFilename_def Let_def split: sum.splits option.splits)

lemma addPath_new:
  "Path_normalize P p \<notin> set (modulePaths self) \<Longrightarrow>
     modulePaths (addPath P self p) = Path_normalize P p # modulePaths self"
  by (simp add: addPath_def Let_def array_lacks_def unshift_def)

text \<open>
  The rule that the code follows. The wrapped builder returns the captured builder's
  list unchanged when \<open>from\<close> contains the text \<open>node_modules\<close> anywhere, which covers
  every \<open>from\<close> inside a \<open>node_modules\<close> directory; otherwise it returns the Path Set's
  entries, in Path Set order, followed by that list, so that a directory just added by
  \<open>addPath\<close> comes first. The captured functions are left as they were by the builder's
  result (a list), by \<open>addPath\<close>, by \<open>addAlias\<close> and by the wrapped resolver.
\<close>

lemma nodeModulePaths_substring_rule:
  "nodeModulePaths self from =
     (if sublist ''node_modules'' from then oldNodeModulePaths self from
      else modulePaths self @ oldNodeModulePaths self from)
   \<and> (spec_inside_dependency_directory from
        \<longrightarrow> nodeModulePaths self from = oldNodeModulePaths self from)
   \<and> (\<not> sublist ''node_modules'' from \<and> Path_normalize P p \<notin> set (modulePaths self)
        \<longrightarrow> nodeModulePaths (addPath P self p) from
              = Path_normalize P p # nodeModulePaths self from)
   \<and> oldNodeModulePaths (addPath P self p) = oldNodeModulePaths self
   \<and> oldNodeModulePaths (addAlias self a t) = oldNodeModulePaths self
   \<and> oldNodeModulePaths (instance_after (resolveFilename P self r parent args))
       = oldNodeModulePaths self"
proof (intro conjI impI)
  show "nodeModulePaths self from =
     (if sublist ''node_modules'' from then oldNodeModulePaths self from
      else modulePaths self @ oldNodeModulePaths self from)"
    by (rule nodeModulePaths_eq)
next
  assume "spec_inside_dependency_directory from"
  then have "sublist ''node_modules'' from" by (rule inside_dependency_directory_sublist)
  then show "nodeModulePaths self from = oldNodeModulePaths self from"
    by (simp add: nodeModulePaths_eq)
next
  assume h: "\<not> sublist ''node_modules'' from \<and> Path_normalize P p \<notin> set (modulePaths self)"
  then have "modulePaths (addPath P self p) = Path_normalize P p # modulePaths self"
    by (simp add: addPath_new)
  then show "nodeModulePaths (addPath P self p) from
               = Path_normalize P p # nodeModulePaths self from"
    using h by (simp add: nodeModulePaths_eq addPath_captured)
next
  show "oldNodeModulePaths (addPath P self p) = oldNodeModulePaths self"
    by (rule addPath_captured)
  show "oldNodeModulePaths (addAlias self a t) = oldNodeModulePaths self"
    by (rule addAlias_captured)
  show "oldNodeModulePaths (instance_after (resolveFilename P self r parent args))
          = oldNodeModulePaths self"
    by (simp add: resolveFilename_instance)
qed

lemmas path_defs = addPath_def addPathHelper_def array_lacks_def unshift_def Let_def

lemma nodeModulePaths_substring_rule_example:
  "spec_inside_dependency_directory ''/app/node_modules/dep/lib''
   \<and> nodeModulePaths (addPath (posix_path ''/app'') example_instance ''/app/custom'')
        ''/app/node_modules/dep/lib''
       = [''/app/node_modules/dep/lib/node_modules'']
   \<and> \<not> sublist ''node_modules'' ''/app/src''
   \<and> nodeModulePaths (addPath (posix_path ''/app'') example_instance ''/app/custom'') ''/app/src''
       = [''/app/custom'', ''/app/src/node_modules'']"
proof -
  let ?P = "posix_path ''/app''"
  have i: "spec_inside_dependency_directory ''/app/node_modules/dep/lib''" by code_simp
  have n: "\<not> sublist ''node_modules'' ''/app/src''" by code_simp
  have new: "Path_normalize ?P ''/app/custom'' \<notin> set (modulePaths example_instance)"
    by (simp add: example_defs)
  have norm: "Path_normalize ?P ''/app/custom'' = ''/app/custom''" by code_simp
  have old: "oldNodeModulePaths example_instance = example_nodeModulePaths"
    by (simp add: example_defs)
  have mp: "modulePaths example_instance = []" by (simp add: example_defs)
  have a0: "nodeModulePaths (addPath ?P example_instance ''/app/custom'') ''/app/node_modules/dep/lib''
       = oldNodeModulePaths (addPath ?P example_instance ''/app/custom'') ''/app/node_modules/dep/lib''"
    using nodeModulePaths_substring_rule[of "addPath ?P example_instance ''/app/custom''"
        "''/app/node_modules/dep/lib''" ?P "''/app/custom''"] i
    by blast
  have a: "nodeModulePaths (addPath ?P example_instance ''/app/custom'') ''/app/node_modules/dep/lib''
       = [''/app/node_modules/dep/lib/node_modules'']"
    unfolding a0 by (simp add: addPath_captured old example_nodeModulePaths_def)
  have b0: "nodeModulePaths (addPath ?P example_instance ''/app/custom'') ''/app/src''
       = Path_normalize ?P ''/app/custom'' # nodeModulePaths example_instance ''/app/src''"
    using nodeModulePaths_substring_rule[of example_instance "''/app/src''" ?P "''/app/custom''"]
      n new
    by blast
  have b1: "nodeModulePaths example_instance ''/app/src'' = [''/app/src/node_modules'']"
    using n by (simp add: nodeModulePaths_eq old mp example_nodeModulePaths_def)
  have b: "nodeModulePaths (addPath ?P example_instance ''/app/custom'') ''/app/src''
       = [''/app/custom'', ''/app/src/node_modules'']"
    unfolding b0 b1 norm by simp
  show ?thesis using i n a b by blast
qed

text \<open>
  Claim C3. The claim, like the comment in the code (the Path Set is for modules
  \<^emph>\<open>that were not installed\<close>), makes the rule depend on whether \<open>from\<close> lies inside a
  \<open>node_modules\<close> directory; the code tests whether the text \<open>node_modules\<close> occurs in
  \<open>from\<close>. The two differ at \<open>/app/node_modules_custom/lib\<close>, a directory under the custom
  module directory of the README: no segment of it is \<open>node_modules\<close>, the Path Set holds
  \<open>/app/node_modules_custom\<close>, and the wrapped builder returns the captured builder's
  list without the Path Set in front.
\<close>

theorem nodeModulePaths_custom_directory:
  "\<not> spec_inside_dependency_directory ''/app/node_modules_custom/lib''
   \<and> modulePaths (addPath (posix_path ''/app'') example_instance ''/app/node_modules_custom'')
       = [''/app/node_modules_custom'']
   \<and> oldNodeModulePaths (addPath (posix_path ''/app'') example_instance ''/app/node_modules_custom'')
        ''/app/node_modules_custom/lib''
       = [''/app/node_modules_custom/lib/node_modules'']
   \<and> nodeModulePaths (addPath (posix_path ''/app'') example_instance ''/app/node_modules_custom'')
        ''/app/node_modules_custom/lib''
       = [''/app/node_modules_custom/lib/node_modules'']
   \<and> nodeModulePaths (addPath (posix_path ''/app'') example_instance ''/app/node_modules_custom'')
        ''/app/node_modules_custom/lib''
       \<noteq> modulePaths (addPath (posix_path ''/app'') example_instance ''/app/node_modules_custom'')
          @ oldNodeModulePaths (addPath (posix_path ''/app'') example_instance ''/app/node_modules_custom'')
              ''/app/node_modules_custom/lib''"
  by code_simp

subsection \<open>Handler targets\<close>

lemma resolveFilename_failed:
  "alias_loop P self request parent (length (moduleAliasNames self)) = Inl e \<Longrightarrow>
     resolveFilename P self request parent args
       = \<lparr> returned = Inl e, instance_after = self, parent_after = parent \<rparr>"
  by (simp add: resolveFilename_def)

lemma resolveFilename_delegated:
  "alias_loop P self request parent (length (moduleAliasNames self)) = Inr request' \<Longrightarrow>
     resolveFilename P self request parent args
       = \<lparr> returned = Inr (oldResolveFilename self request'
                  (map_option (\<lambda>p. p\<lparr> paths := Some (repaired_paths self parent) \<rparr>) parent) args),
           instance_after =
             (case parent of
                None \<Rightarrow> self
              | Some p \<Rightarrow>
                  if module_address p = module_address (owner_module self)
                  then self\<lparr> owner_module := p\<lparr> paths := Some (repaired_paths self parent) \<rparr> \<rparr>
                  else self),
           parent_after = map_option (\<lambda>p. p\<lparr> paths := Some (repaired_paths self parent) \<rparr>) parent \<rparr>"
  by (simp add: resolveFilename_def Let_def split: option.splits)

lemma apply_alias_Handler:
  "js_get (moduleAliases self) alias = Some (Handler handler) \<Longrightarrow>
     apply_alias P self request (Some parent) alias
       = (case handler (filename parent) request alias of
            JString t \<Rightarrow>
              if t = [] then Inl ConfigurationError
              else Inr (Path_join P t (substr request (length alias)))
          | _ \<Rightarrow> Inl ConfigurationError)"
  by (cases "handler (filename parent) request alias") (simp_all add: apply_alias_def Let_def)

text \<open>Without a requesting module the handler is not reached: \<open>parent.filename\<close> throws.\<close>

lemma handler_without_parent:
  assumes "first_matching_alias self request = Some a"
    and "js_get (moduleAliases self) a = Some (Handler handler)"
  shows "resolveFilename P self request None args
           = \<lparr> returned = Inl TypeError, instance_after = self, parent_after = None \<rparr>"
proof -
  have "alias_loop P self request None (length (moduleAliasNames self)) = Inl TypeError"
    using assms by (simp add: alias_loop_first_match apply_alias_def)
  then show ?thesis by (rule resolveFilename_failed)
qed

text \<open>
  Claim C5. When the walk stops at an alias whose target is a handler, the outcome of
  the call is a function of the handler's value at (the requesting module's file name,
  the original request, the alias name). If that value is falsy or not a string, the
  call throws the configuration error, the captured resolver is not reached, and the
  instance (the alias dictionary and the name index with it) and the requesting module
  are as before the call; a non-empty string is joined with the rest of the request.
\<close>

theorem handler_dispatch:
  assumes f: "first_matching_alias self request = Some alias"
    and h: "js_get (moduleAliases self) alias = Some (Handler handler)"
  shows "returned (resolveFilename P self request (Some parent) args)
           = (case handler (filename parent) request alias of
                JString t \<Rightarrow>
                  if t = [] then Inl ConfigurationError
                  else Inr (oldResolveFilename self
                              (Path_join P t (substr request (length alias)))
                              (Some (parent\<lparr> paths := Some (repaired_paths self (Some parent)) \<rparr>))
                              args)
              | _ \<Rightarrow> Inl ConfigurationError)
       \<and> (\<not> truthy (handler (filename parent) request alias)
            \<or> \<not> typeof_is_string (handler (filename parent) request alias)
          \<longrightarrow> resolveFilename P self request (Some parent) args
                = \<lparr> returned = Inl ConfigurationError, instance_after = self,
                    parent_after = Some parent \<rparr>)
       \<and> moduleAliases (instance_after (resolveFilename P self request (Some parent) args))
           = moduleAliases self
       \<and> moduleAliasNames (instance_after (resolveFilename P self request (Some parent) args))
           = moduleAliasNames self"
proof -
  have loop: "alias_loop P self request (Some parent) (length (moduleAliasNames self))
           = (case handler (filename parent) request alias of
                JString t \<Rightarrow>
                  if t = [] then Inl ConfigurationError
                  else Inr (Path_join P t (substr request (length alias)))
              | _ \<Rightarrow> Inl ConfigurationError)"
    by (simp add: alias_loop_first_match f apply_alias_Handler[OF h])
  have r: "returned (resolveFilename P self request (Some parent) args)
           = (case handler (filename parent) request alias of
                JString t \<Rightarrow>
                  if t = [] then Inl ConfigurationError
                  else Inr (oldResolveFilename self
                              (Path_join P t (substr request (length alias)))
                              (Some (parent\<lparr> paths := Some (repaired_paths self (Some parent)) \<rparr>))
                              args)
              | _ \<Rightarrow> Inl ConfigurationError)"
    by (cases "handler (filename parent) request alias")
       (simp_all add: resolveFilename_returned loop)
  have e: "\<not> truthy (handler (filename parent) request alias)
            \<or> \<not> typeof_is_string (handler (filename parent) request alias)
          \<longrightarrow> resolveFilename P self request (Some parent) args
                = \<lparr> returned = Inl ConfigurationError, instance_after = self,
                    parent_after = Some parent \<rparr>"
  proof
    assume "\<not> truthy (handler (filename parent) request alias)
            \<or> \<not> typeof_is_string (handler (filename parent) request alias)"
    then have "alias_loop P self request (Some parent) (length (moduleAliasNames self))
                 = Inl ConfigurationError"
      unfolding loop by (cases "handler (filename parent) request alias") auto
    then show "resolveFilename P self request (Some parent) args
                = \<lparr> returned = Inl ConfigurationError, instance_after = self,
                    parent_after = Some parent \<rparr>"
      by (rule resolveFilename_failed)
  qed
  show ?thesis using r e by (simp add: resolveFilename_instance)
qed

theorem handler_dispatch_witness:
  "first_matching_alias
     (addAlias example_instance ''@src''
        (Handler (\<lambda>fromPath request alias.
           if prefix ''/others'' fromPath then JString ''/others'' else JUndefined)))
     ''@src/util'' = Some ''@src''
   \<and> \<not> truthy JUndefined
   \<and> returned (resolveFilename (posix_path ''/app'')
       (addAlias example_instance ''@src''
          (Handler (\<lambda>fromPath request alias.
             if prefix ''/others'' fromPath then JString ''/others'' else JUndefined)))
       ''@src/util'' (Some example_module) True)
      = Inl ConfigurationError
   \<and> parent_after (resolveFilename (posix_path ''/app'')
       (addAlias example_instance ''@src''
          (Handler (\<lambda>fromPath request alias.
             if prefix ''/others'' fromPath then JString ''/others'' else JUndefined)))
       ''@src/util'' (Some example_module) True)
      = Some example_module
   \<and> returned (resolveFilename (posix_path ''/app'')
       (addAlias example_instance ''@src''
          (Handler (\<lambda>fromPath request alias.
             if prefix ''/others'' fromPath then JString ''/others'' else JUndefined)))
       ''@src/util''
       (Some (example_module\<lparr> module_address := 1, filename := ''/others/a.js'' \<rparr>)) True)
      = Inr (''/others/util'',
             Some \<lparr> module_address = 1, filename = ''/others/a.js'',
                    paths = Some [''/app/src/node_modules'', ''/app/node_modules''] \<rparr>,
             True)"
proof -
  let ?h = "\<lambda>fromPath (request::string) (alias::string).
           if prefix ''/others'' fromPath then JString ''/others'' else JUndefined"
  let ?S = "addAlias example_instance ''@src'' (Handler ?h)"
  let ?P = "posix_path ''/app''"
  let ?m2 = "example_module\<lparr> module_address := 1, filename := ''/others/a.js'' \<rparr>"
  have names: "moduleAliasNames ?S = [''@src'']"
    by (simp add: table_defs example_defs Object_keys_def is_array_index_def is_digit_def)
  have f: "first_matching_alias ?S ''@src/util'' = Some ''@src''"
    unfolding first_matching_alias_def names by code_simp
  have h: "js_get (moduleAliases ?S) ''@src'' = Some (Handler ?h)"
    by (simp add: table_defs example_defs)
  have v1: "?h (filename example_module) ''@src/util'' ''@src'' = JUndefined"
    by (simp add: example_defs)
  have v2: "?h (filename ?m2) ''@src/util'' ''@src'' = JString ''/others''"
    by (simp add: example_defs)
  have old: "oldResolveFilename ?S = example_resolver" by (simp add: table_defs example_defs)
  have mp: "modulePaths ?S = []" by (simp add: table_defs example_defs)
  have rp: "repaired_paths ?S (Some ?m2) = [''/app/src/node_modules'', ''/app/node_modules'']"
    unfolding repaired_paths_def mp by code_simp
  have j: "Path_join ?P ''/others'' (substr ''@src/util'' (length ''@src'')) = ''/others/util''"
    by code_simp
  note main1 = handler_dispatch[OF f h, of ?P example_module True]
  note main2 = handler_dispatch[OF f h, of ?P ?m2 True]
  have r1: "resolveFilename ?P ?S ''@src/util'' (Some example_module) True
              = \<lparr> returned = Inl ConfigurationError, instance_after = ?S,
                  parent_after = Some example_module \<rparr>"
    using main1 unfolding v1 by simp
  have s1: "returned (resolveFilename ?P ?S ''@src/util'' (Some ?m2) True)
              = Inr (oldResolveFilename ?S
                       (Path_join ?P ''/others'' (substr ''@src/util'' (length ''@src'')))
                       (Some (?m2\<lparr> paths := Some (repaired_paths ?S (Some ?m2)) \<rparr>)) True)"
    using main2[THEN conjunct1] unfolding v2 by simp
  have r2: "returned (resolveFilename ?P ?S ''@src/util'' (Some ?m2) True)
              = Inr (''/others/util'',
                     Some \<lparr> module_address = 1, filename = ''/others/a.js'',
                            paths = Some [''/app/src/node_modules'', ''/app/node_modules''] \<rparr>,
                     True)"
    unfolding s1 j rp old by (simp add: example_defs)
  show ?thesis using f r1 r2 by simp
qed

subsection \<open>A missing requesting module\<close>

text \<open>
  Claim C10. With no requesting module, when the walk stops at no alias or at an alias
  with a static target, the call does not throw: it returns what the captured resolver
  returns for the request (rewritten by that alias, if any), the missing module and the
  same extra arguments; no search-path list is assigned and the instance is unchanged.
\<close>

theorem missing_parent_static:
  assumes "first_matching_alias self request = None
           \<or> (\<exists>alias t. first_matching_alias self request = Some alias
                 \<and> js_get (moduleAliases self) alias = Some (Static t))"
  shows "resolveFilename P self request None args
           = \<lparr> returned =
                 Inr (oldResolveFilename self
                        (case first_matching_alias self request of
                           None \<Rightarrow> request
                         | Some alias \<Rightarrow>
                             (case js_get (moduleAliases self) alias of
                                Some (Static t) \<Rightarrow> Path_join P t (substr request (length alias))
                              | _ \<Rightarrow> request))
                        None args),
               instance_after = self, parent_after = None \<rparr>"
  using assms
proof
  assume n: "first_matching_alias self request = None"
  then have "alias_loop P self request None (length (moduleAliasNames self)) = Inr request"
    by (simp add: alias_loop_first_match)
  from resolveFilename_delegated[OF this] show ?thesis by (simp add: n)
next
  assume "\<exists>alias t. first_matching_alias self request = Some alias
                 \<and> js_get (moduleAliases self) alias = Some (Static t)"
  then obtain al t where f: "first_matching_alias self request = Some al"
    and g: "js_get (moduleAliases self) al = Some (Static t)" by blast
  have "alias_loop P self request None (length (moduleAliasNames self))
          = Inr (Path_join P t (substr request (length al)))"
    by (simp add: alias_loop_first_match f apply_alias_Static[OF g])
  from resolveFilename_delegated[OF this] show ?thesis by (simp add: f g)
qed

theorem missing_parent_static_witness:
  "first_matching_alias (addAlias example_instance ''@client'' (Static ''/src/client''))
     ''@client/ui'' = Some ''@client''
   \<and> js_get (moduleAliases (addAlias example_instance ''@client'' (Static ''/src/client'')))
       ''@client'' = Some (Static ''/src/client'')
   \<and> returned (resolveFilename (posix_path ''/app'')
        (addAlias example_instance ''@client'' (Static ''/src/client'')) ''@client/ui'' None True)
      = Inr (''/src/client/ui'', None, True)
   \<and> parent_after (resolveFilename (posix_path ''/app'')
        (addAlias example_instance ''@client'' (Static ''/src/client'')) ''@client/ui'' None True)
      = None"
proof -
  let ?S = "addAlias example_instance ''@client'' (Static ''/src/client'')"
  let ?P = "posix_path ''/app''"
  have f: "first_matching_alias ?S ''@client/ui'' = Some ''@client''" by code_simp
  have g: "js_get (moduleAliases ?S) ''@client'' = Some (Static ''/src/client'')"
    by (simp add: table_defs example_defs)
  have j: "Path_join ?P ''/src/client'' (substr ''@client/ui'' (length ''@client'')) = ''/src/client/ui''"
    by code_simp
  have old: "oldResolveFilename ?S = example_resolver" by (simp add: table_defs example_defs)
  have h: "first_matching_alias ?S ''@client/ui'' = None
           \<or> (\<exists>alias t. first_matching_alias ?S ''@client/ui'' = Some alias
                 \<and> js_get (moduleAliases ?S) alias = Some (Static t))"
    using f g by blast
  have r: "resolveFilename ?P ?S ''@client/ui'' None True
             = \<lparr> returned = Inr (''/src/client/ui'', None, True),
                 instance_after = ?S, parent_after = None \<rparr>"
    unfolding missing_parent_static[OF h, of ?P True]
    by (simp only: f g j old example_resolver_def option.case alias_target.case)
  show ?thesis using f g r by simp
qed

subsection \<open>The search-path repair\<close>

lemma filter_absent_Cons:
  "filter (\<lambda>y. y \<notin> K) (x # filter (\<lambda>y. y \<noteq> x) ys)
     = (if x \<in> K then filter (\<lambda>y. y \<notin> K) ys
        else x # filter (\<lambda>y. y \<notin> insert x K) ys)"
  by (induction ys) auto

lemma put_keys_fold:
  "\<forall>k\<in>set xs. k \<noteq> ''__proto__'' \<Longrightarrow>
     map fst (foldl (\<lambda>obj path. js_put obj path v) obj xs)
       = map fst obj @ filter (\<lambda>y. y \<notin> set (map fst obj)) (dedup xs)"
proof (induction xs arbitrary: obj)
  case Nil
  then show ?case by simp
next
  case (Cons x xs)
  have x: "x \<noteq> ''__proto__''" and rest: "\<forall>k\<in>set xs. k \<noteq> ''__proto__''"
    using Cons.prems by auto
  have step: "js_put obj x v = AList.update x v obj" using x by (simp add: js_put_def)
  have ih: "map fst (foldl (\<lambda>obj path. js_put obj path v) (AList.update x v obj) xs)
       = map fst (AList.update x v obj)
         @ filter (\<lambda>y. y \<notin> set (map fst (AList.update x v obj))) (dedup xs)"
    by (rule Cons.IH[OF rest])
  have d: "dedup (x # xs) = x # filter (\<lambda>y. y \<noteq> x) (dedup xs)" by simp
  show ?case
  proof (cases "x \<in> set (map fst obj)")
    case True
    then have k: "map fst (AList.update x v obj) = map fst obj" by (simp add: update_keys)
    show ?thesis
      unfolding d filter_absent_Cons using True ih by (simp add: step k)
  next
    case False
    then have k: "map fst (AList.update x v obj) = map fst obj @ [x]" by (simp add: update_keys)
    show ?thesis
      unfolding d filter_absent_Cons using False ih by (simp add: step k)
  qed
qed

lemma set_dedup: "set (dedup xs) = set xs"
  by (induction xs) auto

lemma distinct_dedup: "distinct (dedup xs)"
  by (induction xs) (auto simp: set_dedup)

lemma Object_keys_plain:
  "\<forall>k\<in>fst ` set obj. \<not> is_array_index k \<Longrightarrow> Object_keys obj = map fst obj"
proof -
  assume a: "\<forall>k\<in>fst ` set obj. \<not> is_array_index k"
  then have "filter is_array_index (map fst obj) = []"
    by (auto simp: filter_empty_conv)
  moreover have "filter (\<lambda>k. \<not> is_array_index k) (map fst obj) = map fst obj"
    using a by (auto simp: filter_id_conv)
  ultimately show ?thesis by (simp add: Object_keys_def Let_def)
qed

lemma dedup_append:
  "dedup (xs @ ys) = dedup xs @ filter (\<lambda>y. y \<notin> set xs) (dedup ys)"
proof (induction xs)
  case Nil
  then show ?case by (simp add: filter_id_conv)
next
  case (Cons x xs)
  then show ?case by (auto intro: filter_cong)
qed

lemma repaired_paths_union:
  assumes "\<forall>k\<in>set (modulePaths self) \<union> set (case paths parent of None \<Rightarrow> [] | Some pp \<Rightarrow> pp).
             plain_key k"
  shows "repaired_paths self (Some parent)
           = spec_ordered_union (modulePaths self) (case paths parent of None \<Rightarrow> [] | Some pp \<Rightarrow> pp)"
proof -
  let ?pp = "case paths parent of None \<Rightarrow> [] | Some pp \<Rightarrow> pp"
  let ?xs = "modulePaths self @ ?pp"
  let ?obj = "foldl (\<lambda>obj path. js_put obj path True) [] ?xs"
  have np: "\<forall>k\<in>set ?xs. k \<noteq> ''__proto__''" using assms by (auto simp: plain_key_def)
  have keys: "map fst ?obj = dedup ?xs"
    using put_keys_fold[OF np, of True "[]"] by (simp add: filter_id_conv)
  have "\<forall>k\<in>fst ` set ?obj. \<not> is_array_index k"
  proof
    fix k assume "k \<in> fst ` set ?obj"
    then have "k \<in> set (map fst ?obj)" by simp
    then have "k \<in> set ?xs" unfolding keys by (simp add: set_dedup)
    then show "\<not> is_array_index k" using assms by (auto simp: plain_key_def)
  qed
  then have k: "Object_keys ?obj = dedup ?xs" using keys by (simp add: Object_keys_plain)
  have "repaired_paths self (Some parent) = Object_keys ?obj"
    by (cases "paths parent") (simp_all add: repaired_paths_def Let_def)
  then show ?thesis using k by (simp add: spec_ordered_union_def)
qed

lemma filter_dedup: "filter Q (dedup xs) = dedup (filter Q xs)"
proof (induction xs)
  case Nil
  then show ?case by simp
next
  case (Cons x xs)
  show ?case
  proof (cases "Q x")
    case True
    have "filter Q (filter (\<lambda>y. y \<noteq> x) (dedup xs)) = filter (\<lambda>y. y \<noteq> x) (filter Q (dedup xs))"
      by (auto intro: filter_cong)
    then show ?thesis using True Cons.IH by simp
  next
    case False
    have "filter Q (filter (\<lambda>y. y \<noteq> x) (dedup xs)) = filter Q (dedup xs)"
      using False by (auto intro: filter_cong)
    then show ?thesis using False Cons.IH by simp
  qed
qed

lemma put_proto_fold:
  "foldl (\<lambda>obj path. js_put obj path v) obj xs
     = foldl (\<lambda>obj path. js_put obj path v) obj (filter (\<lambda>k. k \<noteq> ''__proto__'') xs)"
  by (induction xs arbitrary: obj) (simp_all add: js_put_def)

lemma put_keys_fold_all:
  "map fst (foldl (\<lambda>obj path. js_put obj path v) obj xs)
     = map fst obj
       @ filter (\<lambda>y. y \<notin> set (map fst obj)) (dedup (filter (\<lambda>k. k \<noteq> ''__proto__'') xs))"
proof -
  have "\<forall>k\<in>set (filter (\<lambda>k. k \<noteq> ''__proto__'') xs). k \<noteq> ''__proto__''" by simp
  from put_keys_fold[OF this, of v obj] show ?thesis
    by (simp only: put_proto_fold[of v obj xs])
qed

lemma Object_keys_filter_plain:
  "filter (\<lambda>k. \<not> is_array_index k) (Object_keys obj)
     = filter (\<lambda>k. \<not> is_array_index k) (map fst obj)"
proof -
  have "filter (\<lambda>k. \<not> is_array_index k)
          (sort_key decimal_value (filter is_array_index (map fst obj))) = []"
    by (simp add: filter_empty_conv)
  then show ?thesis by (simp add: Object_keys_def Let_def)
qed

lemma distinct_Object_keys: "distinct (map fst obj) \<Longrightarrow> distinct (Object_keys obj)"
  by (auto simp: Object_keys_def Let_def)

lemma repaired_paths_keys:
  "repaired_paths self (Some parent)
     = Object_keys (foldl (\<lambda>obj path. js_put obj path True) []
         (modulePaths self @ (case paths parent of None \<Rightarrow> [] | Some pp \<Rightarrow> pp)))"
  by (cases "paths parent") (simp_all add: repaired_paths_def Let_def)

lemma repaired_object_keys:
  "map fst (foldl (\<lambda>obj path. js_put obj path True) [] xs)
     = dedup (filter (\<lambda>k. k \<noteq> ''__proto__'') xs)"
  using put_keys_fold_all[of True "[]" xs] by (simp add: filter_id_conv)

lemma filter_plain_key:
  "filter plain_key xs = filter (\<lambda>k. k \<noteq> ''__proto__'') (filter (\<lambda>k. \<not> is_array_index k) xs)"
  by (auto simp: plain_key_def intro: filter_cong)

lemma filter_plain_proto:
  "filter plain_key (filter (\<lambda>k. k \<noteq> ''__proto__'') xs) = filter plain_key xs"
  by (induction xs) (simp_all add: plain_key_def)

lemma repaired_paths_plain_entries:
  "filter plain_key (repaired_paths self (Some parent))
     = spec_ordered_union (filter plain_key (modulePaths self))
         (filter plain_key (case paths parent of None \<Rightarrow> [] | Some pp \<Rightarrow> pp))"
proof -
  let ?xs = "modulePaths self @ (case paths parent of None \<Rightarrow> [] | Some pp \<Rightarrow> pp)"
  let ?obj = "foldl (\<lambda>obj path. js_put obj path True) [] ?xs"
  have "filter plain_key (Object_keys ?obj)
          = filter (\<lambda>k. k \<noteq> ''__proto__'') (filter (\<lambda>k. \<not> is_array_index k) (map fst ?obj))"
    by (simp only: filter_plain_key Object_keys_filter_plain)
  also have "\<dots> = filter plain_key (dedup (filter (\<lambda>k. k \<noteq> ''__proto__'') ?xs))"
    by (simp only: filter_plain_key[symmetric] repaired_object_keys)
  also have "\<dots> = dedup (filter plain_key (filter (\<lambda>k. k \<noteq> ''__proto__'') ?xs))"
    by (rule filter_dedup)
  finally have "filter plain_key (Object_keys ?obj) = dedup (filter plain_key ?xs)"
    by (simp only: filter_plain_proto)
  then show ?thesis
    by (simp add: repaired_paths_keys spec_ordered_union_def)
qed

lemma repaired_paths_distinct: "distinct (repaired_paths self (Some parent))"
  unfolding repaired_paths_keys
  by (rule distinct_Object_keys) (simp only: repaired_object_keys distinct_dedup)

lemma dedup_distinct: "distinct xs \<Longrightarrow> dedup xs = xs"
  by (induction xs) (auto simp: filter_id_conv)

lemma Object_keys_of_keys:
  "map fst obj = ks \<Longrightarrow>
     Object_keys obj
       = sort_key decimal_value (filter is_array_index ks)
         @ filter (\<lambda>k. \<not> is_array_index k) ks"
  by (simp add: Object_keys_def Let_def)

lemma Object_keys_settled:
  assumes d: "distinct (map fst obj)" and n: "''__proto__'' \<notin> set (map fst obj)"
  shows "Object_keys (foldl (\<lambda>ob path. js_put ob path v) [] (Object_keys obj)) = Object_keys obj"
proof -
  let ?K = "map fst obj"
  let ?A = "filter is_array_index ?K"
  let ?ks = "Object_keys obj"
  let ?obj' = "foldl (\<lambda>ob path. js_put ob path v) [] ?ks"
  have ks: "?ks = sort_key decimal_value ?A @ filter (\<lambda>k. \<not> is_array_index k) ?K"
    by (simp add: Object_keys_def Let_def)
  have dk: "distinct ?ks" using d by (rule distinct_Object_keys)
  have nk: "filter (\<lambda>k. k \<noteq> ''__proto__'') ?ks = ?ks"
  proof -
    have "set ?ks = set (map fst obj)" by (simp only: set_Object_keys set_map)
    then have "''__proto__'' \<notin> set ?ks" using n by (simp only: not_False_eq_True)
    then have "\<forall>k\<in>set ?ks. k \<noteq> ''__proto__''" by blast
    then show ?thesis by (simp only: filter_id_conv)
  qed
  have keys: "map fst ?obj' = ?ks"
    using put_keys_fold_all[of v "[]" ?ks] by (simp add: nk dedup_distinct[OF dk] filter_id_conv)
  have a: "filter is_array_index ?ks = sort_key decimal_value ?A"
    unfolding ks by (simp add: filter_id_conv filter_empty_conv)
  have s: "sort_key decimal_value (sort_key decimal_value ?A) = sort_key decimal_value ?A"
    by (rule sort_key_id_if_sorted) (rule sorted_sort_key)
  have b: "filter (\<lambda>k. \<not> is_array_index k) ?ks = filter (\<lambda>k. \<not> is_array_index k) ?K"
    by (rule Object_keys_filter_plain)
  have "Object_keys ?obj'
          = sort_key decimal_value (filter is_array_index ?ks)
            @ filter (\<lambda>k. \<not> is_array_index k) ?ks"
    using keys by (rule Object_keys_of_keys)
  also have "\<dots> = ?ks" unfolding a s b by (simp only: ks)
  finally show ?thesis .
qed

lemma repaired_paths_object:
  "\<exists>ys. repaired_paths self parent
          = Object_keys (foldl (\<lambda>obj path. js_put obj path True) [] ys)"
  unfolding repaired_paths_def Let_def by (rule exI) (rule refl)

text \<open>
  A resolver that repairs with an empty Path Set leaves a list alone that a repair has
  produced: behind the wrapper of a published instance, the wrapper of an abandoned
  instance is the function that it captured.
\<close>

lemma repaired_paths_empty_set:
  "modulePaths inner = [] \<Longrightarrow>
     repaired_paths inner (Some (p\<lparr> paths := Some zs \<rparr>))
       = Object_keys (foldl (\<lambda>obj path. js_put obj path True) [] zs)"
  by (simp add: repaired_paths_def Let_def)

lemma repaired_paths_settled:
  assumes "modulePaths inner = []"
  shows "repaired_paths inner (Some (p\<lparr> paths := Some (repaired_paths self parent) \<rparr>))
           = repaired_paths self parent"
proof -
  obtain ys where r: "repaired_paths self parent
          = Object_keys (foldl (\<lambda>obj path. js_put obj path True) [] ys)"
    using repaired_paths_object by blast
  let ?obj = "foldl (\<lambda>obj path. js_put obj path True) [] ys"
  have k: "map fst ?obj = dedup (filter (\<lambda>k. k \<noteq> ''__proto__'') ys)"
    by (rule repaired_object_keys)
  have d: "distinct (map fst ?obj)" unfolding k by (rule distinct_dedup)
  have n: "''__proto__'' \<notin> set (map fst ?obj)" unfolding k by (simp add: set_dedup)
  have "repaired_paths inner (Some (p\<lparr> paths := Some (repaired_paths self parent) \<rparr>))
          = Object_keys (foldl (\<lambda>obj path. js_put obj path True) [] (Object_keys ?obj))"
    using assms by (simp only: repaired_paths_empty_set r)
  also have "\<dots> = Object_keys ?obj" using d n by (rule Object_keys_settled)
  finally show ?thesis by (simp only: r)
qed

text \<open>
  Claim C8, as amended. On a call with a requesting module in which the alias step
  does not throw, whether or not an alias matched: the captured resolver is called
  with the request produced by the alias step (the original one when no alias
  matched), the requesting module with its search-path list replaced, and the extra
  arguments as they came; the call leaves the requesting module with that list, and
  the instance with it when the requesting module is the owning module. The new list
  has no entry twice. Its entries that are neither array indices nor \<open>__proto__\<close> are
  those entries of the Path Set followed by those entries of the module's previous list
  (none when it had no list), each at its first occurrence only; when every entry is
  of that kind this is the whole list.
\<close>

theorem search_path_repair:
  assumes step: "alias_loop P self request (Some parent) (length (moduleAliasNames self))
                   = Inr request'"
  shows "returned (resolveFilename P self request (Some parent) args)
           = Inr (oldResolveFilename self request'
                    (Some (parent\<lparr> paths := Some (repaired_paths self (Some parent)) \<rparr>)) args)
       \<and> parent_after (resolveFilename P self request (Some parent) args)
           = Some (parent\<lparr> paths := Some (repaired_paths self (Some parent)) \<rparr>)
       \<and> instance_after (resolveFilename P self request (Some parent) args)
           = (if module_address parent = module_address (owner_module self)
              then self\<lparr> owner_module :=
                          parent\<lparr> paths := Some (repaired_paths self (Some parent)) \<rparr> \<rparr>
              else self)
       \<and> filter plain_key (repaired_paths self (Some parent))
           = spec_ordered_union (filter plain_key (modulePaths self))
               (filter plain_key (case paths parent of None \<Rightarrow> [] | Some pp \<Rightarrow> pp))
       \<and> ((\<forall>k\<in>set (modulePaths self)
                  \<union> set (case paths parent of None \<Rightarrow> [] | Some pp \<Rightarrow> pp). plain_key k)
            \<longrightarrow> repaired_paths self (Some parent)
                  = spec_ordered_union (modulePaths self)
                      (case paths parent of None \<Rightarrow> [] | Some pp \<Rightarrow> pp))
       \<and> spec_ordered_union xs ys = dedup xs @ filter (\<lambda>y. y \<notin> set xs) (dedup ys)
       \<and> distinct (repaired_paths self (Some parent))
       \<and> (first_matching_alias self request = None \<longrightarrow> request' = request)"
proof -
  have n: "first_matching_alias self request = None \<longrightarrow> request' = request"
    using step by (auto simp: alias_loop_first_match)
  have u: "spec_ordered_union xs ys = dedup xs @ filter (\<lambda>y. y \<notin> set xs) (dedup ys)"
    by (simp add: spec_ordered_union_def dedup_append)
  have a: "(\<forall>k\<in>set (modulePaths self)
                  \<union> set (case paths parent of None \<Rightarrow> [] | Some pp \<Rightarrow> pp). plain_key k)
            \<longrightarrow> repaired_paths self (Some parent)
                  = spec_ordered_union (modulePaths self)
                      (case paths parent of None \<Rightarrow> [] | Some pp \<Rightarrow> pp)"
    using repaired_paths_union by blast
  show ?thesis
    using resolveFilename_delegated[OF step, of args] n u a
      repaired_paths_plain_entries[of self parent] repaired_paths_distinct[of self parent]
    by simp
qed

theorem search_path_repair_witness:
  "alias_loop (posix_path ''/app'')
      (addAlias (addPath (posix_path ''/app'') example_instance ''/app/custom'')
         ''@client'' (Static ''/src/client''))
      ''@client/ui'' (Some (example_other_module\<lparr> paths := Some [''/app/node_modules'', ''/app/custom''] \<rparr>))
      (length (moduleAliasNames
         (addAlias (addPath (posix_path ''/app'') example_instance ''/app/custom'')
            ''@client'' (Static ''/src/client''))))
     = Inr ''/src/client/ui''
   \<and> returned (resolveFilename (posix_path ''/app'')
        (addAlias (addPath (posix_path ''/app'') example_instance ''/app/custom'')
           ''@client'' (Static ''/src/client''))
        ''@client/ui'' (Some (example_other_module\<lparr> paths := Some [''/app/node_modules'', ''/app/custom''] \<rparr>))
        True)
      = Inr (''/src/client/ui'',
             Some \<lparr> module_address = 1, filename = ''/app/src/other.js'',
                    paths = Some [''/app/custom'', ''/app/node_modules''] \<rparr>,
             True)
   \<and> instance_after (resolveFilename (posix_path ''/app'')
        (addAlias (addPath (posix_path ''/app'') example_instance ''/app/custom'')
           ''@client'' (Static ''/src/client''))
        ''@client/ui'' (Some (example_other_module\<lparr> paths := Some [''/app/node_modules'', ''/app/custom''] \<rparr>))
        True)
      = addAlias (addPath (posix_path ''/app'') example_instance ''/app/custom'')
           ''@client'' (Static ''/src/client'')
   \<and> owner_module
        (addPath (posix_path ''/app'')
           (new_instance (example_module\<lparr> paths := Some [''/app/node_modules'', ''7'', ''/app/custom''] \<rparr>)
              example_nodeModulePaths example_resolver)
           ''/app/custom'')
      = \<lparr> module_address = 0, filename = ''/app/src/main.js'',
          paths = Some [''/app/node_modules'', ''7'', ''/app/custom''] \<rparr>
   \<and> alias_loop (posix_path ''/app'')
        (addPath (posix_path ''/app'')
           (new_instance (example_module\<lparr> paths := Some [''/app/node_modules'', ''7'', ''/app/custom''] \<rparr>)
              example_nodeModulePaths example_resolver)
           ''/app/custom'')
        ''fs''
        (Some \<lparr> module_address = 0, filename = ''/app/src/main.js'',
                 paths = Some [''/app/node_modules'', ''7'', ''/app/custom''] \<rparr>)
        (length (moduleAliasNames
           (addPath (posix_path ''/app'')
              (new_instance (example_module\<lparr> paths := Some [''/app/node_modules'', ''7'', ''/app/custom''] \<rparr>)
                 example_nodeModulePaths example_resolver)
              ''/app/custom'')))
      = Inr ''fs''
   \<and> filter plain_key (the (paths (owner_module (instance_after (resolveFilename (posix_path ''/app'')
        (addPath (posix_path ''/app'')
           (new_instance (example_module\<lparr> paths := Some [''/app/node_modules'', ''7'', ''/app/custom''] \<rparr>)
              example_nodeModulePaths example_resolver)
           ''/app/custom'')
        ''fs''
        (Some \<lparr> module_address = 0, filename = ''/app/src/main.js'',
                 paths = Some [''/app/node_modules'', ''7'', ''/app/custom''] \<rparr>)
        True)))))
      = [''/app/custom'', ''/app/node_modules'']"
proof -
  let ?P = "posix_path ''/app''"
  let ?S = "addAlias (addPath ?P example_instance ''/app/custom'') ''@client'' (Static ''/src/client'')"
  let ?m = "example_other_module\<lparr> paths := Some [''/app/node_modules'', ''/app/custom''] \<rparr>"
  let ?T = "addPath ?P
              (new_instance (example_module\<lparr> paths := Some [''/app/node_modules'', ''7'', ''/app/custom''] \<rparr>)
                 example_nodeModulePaths example_resolver)
              ''/app/custom''"
  let ?o = "\<lparr> module_address = 0, filename = ''/app/src/main.js'',
             paths = Some [''/app/node_modules'', ''7'', ''/app/custom''] \<rparr>"
  have step: "alias_loop ?P ?S ''@client/ui'' (Some ?m) (length (moduleAliasNames ?S))
                = Inr ''/src/client/ui''"
    by code_simp
  have mp: "modulePaths ?S = [''/app/custom'']" by code_simp
  have pp: "paths ?m = Some [''/app/node_modules'', ''/app/custom'']" by simp
  have k1: "plain_key ''/app/custom''" by code_simp
  have k2: "plain_key ''/app/node_modules''" by code_simp
  have plain: "\<forall>k\<in>set (modulePaths ?S)
                    \<union> set (case paths ?m of None \<Rightarrow> [] | Some pp \<Rightarrow> pp). plain_key k"
    unfolding mp pp using k1 k2 by simp
  have old: "oldResolveFilename ?S = example_resolver"
    by (simp add: table_defs path_defs example_defs)
  have u: "spec_ordered_union [''/app/custom''] [''/app/node_modules'', ''/app/custom'']
             = [''/app/custom'', ''/app/node_modules'']"
    by code_simp
  have own: "module_address ?m \<noteq> module_address (owner_module ?S)"
    by (simp add: table_defs path_defs example_defs example_other_module_def)
  note main = search_path_repair[OF step, of True]
  have rp0: "repaired_paths ?S (Some ?m)
               = spec_ordered_union (modulePaths ?S) (case paths ?m of None \<Rightarrow> [] | Some pp \<Rightarrow> pp)"
    using main plain by blast
  have rp: "repaired_paths ?S (Some ?m) = [''/app/custom'', ''/app/node_modules'']"
    unfolding rp0 mp by (simp add: u)
  have r: "returned (resolveFilename ?P ?S ''@client/ui'' (Some ?m) True)
      = Inr (''/src/client/ui'',
             Some \<lparr> module_address = 1, filename = ''/app/src/other.js'',
                    paths = Some [''/app/custom'', ''/app/node_modules''] \<rparr>,
             True)"
    using main[THEN conjunct1] unfolding rp old
    by (simp add: example_resolver_def example_other_module_def)
  have i: "instance_after (resolveFilename ?P ?S ''@client/ui'' (Some ?m) True) = ?S"
    using main own by simp
  have ow: "owner_module ?T = ?o" by code_simp
  have step2: "alias_loop ?P ?T ''fs'' (Some ?o) (length (moduleAliasNames ?T)) = Inr ''fs''"
    by code_simp
  note main2 = search_path_repair[OF step2, of True]
  have same: "module_address ?o = module_address (owner_module ?T)"
    unfolding ow by simp
  have i2: "instance_after (resolveFilename ?P ?T ''fs'' (Some ?o) True)
              = ?T\<lparr> owner_module := ?o\<lparr> paths := Some (repaired_paths ?T (Some ?o)) \<rparr> \<rparr>"
    using main2 same by simp
  have mp2: "modulePaths ?T = [''/app/custom'']" by code_simp
  have f2: "filter plain_key (repaired_paths ?T (Some ?o))
              = spec_ordered_union (filter plain_key (modulePaths ?T))
                  (filter plain_key (case paths ?o of None \<Rightarrow> [] | Some pp \<Rightarrow> pp))"
    using main2 by blast
  have v: "spec_ordered_union (filter plain_key [''/app/custom''])
                  (filter plain_key [''/app/node_modules'', ''7'', ''/app/custom''])
             = [''/app/custom'', ''/app/node_modules'']"
    by code_simp
  have o2: "filter plain_key (the (paths (owner_module
               (instance_after (resolveFilename ?P ?T ''fs'' (Some ?o) True)))))
             = [''/app/custom'', ''/app/node_modules'']"
    unfolding i2 using f2 v by (simp add: mp2)
  show ?thesis using step r i ow step2 o2 by blast
qed

text \<open>
  The claim as stated fails in two ways. A call whose handler does not return a path
  throws before the repair: the module keeps its list and the captured resolver is not
  reached. And the repaired list is read back with \<open>Object.keys\<close>, which moves entries
  that are array indices to the front and has no entry \<open>__proto__\<close>: with the Path Set
  \<open>b\<close>, \<open>1\<close> the module's list begins \<open>1\<close>, \<open>b\<close>, and with the Path Set \<open>__proto__\<close>
  the module's list lacks that entry.
\<close>

theorem search_path_repair_counterexample:
  "returned (resolveFilename (posix_path ''/app'')
       (addAlias (addPath (posix_path ''/app'') example_instance ''/app/custom'')
          ''@src'' (Handler (\<lambda>fromPath request alias. JUndefined)))
       ''@src/x'' (Some example_other_module) True)
     = Inl ConfigurationError
   \<and> parent_after (resolveFilename (posix_path ''/app'')
       (addAlias (addPath (posix_path ''/app'') example_instance ''/app/custom'')
          ''@src'' (Handler (\<lambda>fromPath request alias. JUndefined)))
       ''@src/x'' (Some example_other_module) True)
     = Some example_other_module
   \<and> paths example_other_module
       \<noteq> Some (spec_ordered_union [''/app/custom''] [''/app/src/node_modules'', ''/app/node_modules''])
   \<and> modulePaths (addPath (posix_path ''/app'') (addPath (posix_path ''/app'') example_instance ''1'') ''b'')
       = [''b'', ''1'']
   \<and> parent_after (resolveFilename (posix_path ''/app'')
       (addPath (posix_path ''/app'') (addPath (posix_path ''/app'') example_instance ''1'') ''b'')
       ''fs'' (Some example_other_module) True)
     = Some \<lparr> module_address = 1, filename = ''/app/src/other.js'',
              paths = Some [''1'', ''b'', ''/app/src/node_modules'', ''/app/node_modules''] \<rparr>
   \<and> spec_ordered_union [''b'', ''1''] [''/app/src/node_modules'', ''/app/node_modules'']
       = [''b'', ''1'', ''/app/src/node_modules'', ''/app/node_modules'']
   \<and> modulePaths (addPath (posix_path ''/app'') example_instance ''__proto__'') = [''__proto__'']
   \<and> parent_after (resolveFilename (posix_path ''/app'')
       (addPath (posix_path ''/app'') example_instance ''__proto__'')
       ''fs'' (Some example_other_module) True)
     = Some \<lparr> module_address = 1, filename = ''/app/src/other.js'',
              paths = Some [''/app/src/node_modules'', ''/app/node_modules''] \<rparr>
   \<and> spec_ordered_union [''__proto__''] [''/app/src/node_modules'', ''/app/node_modules'']
       = [''__proto__'', ''/app/src/node_modules'', ''/app/node_modules'']"
  by code_simp

subsection \<open>The Path Set\<close>

lemma addPath_known:
  "Path_normalize P p \<in> set (modulePaths self) \<Longrightarrow> addPath P self p = self"
  by (simp add: addPath_def Let_def array_lacks_def)

lemma addPath_member: "Path_normalize P p \<in> set (modulePaths (addPath P self p))"
  by (simp add: addPath_def Let_def array_lacks_def unshift_def)

lemma addPath_owner:
  "Path_normalize P p \<notin> set (modulePaths self) \<Longrightarrow>
     paths (owner_module (addPath P self p))
       = (case paths (owner_module self) of
            None \<Rightarrow> None
          | Some arr \<Rightarrow>
              Some (if Path_normalize P (Path_normalize P p) \<in> set arr then arr
                    else Path_normalize P (Path_normalize P p) # arr))"
  by (simp add: addPath_def addPathHelper_def Let_def array_lacks_def unshift_def
      split: option.splits)

lemma addPath_twice:
  "Path_normalize P q = Path_normalize P p \<Longrightarrow> addPath P (addPath P self p) q = addPath P self p"
  using addPath_known[of P q "addPath P self p"] addPath_member[of P p self] by simp

lemma addPath_distinct:
  "distinct (modulePaths self) \<Longrightarrow> distinct (modulePaths (addPath P self p))"
  by (simp add: addPath_def Let_def array_lacks_def unshift_def)

lemma count_list_distinct: "distinct xs \<Longrightarrow> x \<in> set xs \<Longrightarrow> count_list xs x = 1"
  by (induction xs) (auto simp: count_notin)

text \<open>
  Claim C6, for a \<open>Path.normalize\<close> that gives back a normalized path unchanged, as
  \<open>posix_normalize\<close> does. \<open>addPath\<close> works on the normalized path. A second call with a string
  of the same normal form changes nothing, so that path has one entry when it had none
  before, and a Path Set without duplicates stays so. A normalized path that is new to
  the Path Set is put at its front, and at the front of the owning module's own list
  unless that list is missing or has the path already; a path already in the Path Set
  changes nothing. \<open>addPath\<close> has no failing branch: it is a total function of the
  instance and the string.
\<close>

theorem addPath_idempotent:
  assumes idem: "Path_normalize P (Path_normalize P p) = Path_normalize P p"
  shows "(Path_normalize P q = Path_normalize P p
            \<longrightarrow> addPath P (addPath P self p) q = addPath P self p
                \<and> count_list (modulePaths (addPath P (addPath P self p) q)) (Path_normalize P p)
                   = (if Path_normalize P p \<in> set (modulePaths self)
                      then count_list (modulePaths self) (Path_normalize P p) else 1))
       \<and> (distinct (modulePaths self)
            \<longrightarrow> distinct (modulePaths (addPath P self p))
                \<and> count_list (modulePaths (addPath P self p)) (Path_normalize P p) = 1)
       \<and> (Path_normalize P p \<notin> set (modulePaths self)
            \<longrightarrow> modulePaths (addPath P self p) = Path_normalize P p # modulePaths self
                \<and> paths (owner_module (addPath P self p))
                   = (case paths (owner_module self) of
                        None \<Rightarrow> None
                      | Some arr \<Rightarrow>
                          Some (if Path_normalize P p \<in> set arr then arr
                                else Path_normalize P p # arr)))
       \<and> (Path_normalize P p \<in> set (modulePaths self) \<longrightarrow> addPath P self p = self)"
proof (intro conjI impI)
  assume q: "Path_normalize P q = Path_normalize P p"
  show "addPath P (addPath P self p) q = addPath P self p" using q by (rule addPath_twice)
  show "count_list (modulePaths (addPath P (addPath P self p) q)) (Path_normalize P p)
          = (if Path_normalize P p \<in> set (modulePaths self)
             then count_list (modulePaths self) (Path_normalize P p) else 1)"
    unfolding addPath_twice[OF q]
    by (auto simp: addPath_known addPath_new count_notin)
next
  assume d: "distinct (modulePaths self)"
  show "distinct (modulePaths (addPath P self p))" using d by (rule addPath_distinct)
  show "count_list (modulePaths (addPath P self p)) (Path_normalize P p) = 1"
    using addPath_distinct[OF d] addPath_member by (rule count_list_distinct)
next
  assume n: "Path_normalize P p \<notin> set (modulePaths self)"
  show "modulePaths (addPath P self p) = Path_normalize P p # modulePaths self"
    using n by (rule addPath_new)
  show "paths (owner_module (addPath P self p))
          = (case paths (owner_module self) of
               None \<Rightarrow> None
             | Some arr \<Rightarrow>
                 Some (if Path_normalize P p \<in> set arr then arr else Path_normalize P p # arr))"
    using addPath_owner[OF n] by (simp add: idem split: option.splits)
next
  assume "Path_normalize P p \<in> set (modulePaths self)"
  then show "addPath P self p = self" by (rule addPath_known)
qed

theorem addPath_idempotent_witness:
  "Path_normalize (posix_path ''/app'') (Path_normalize (posix_path ''/app'') ''/app/./custom/../lib'')
     = Path_normalize (posix_path ''/app'') ''/app/./custom/../lib''
   \<and> Path_normalize (posix_path ''/app'') ''/app//lib''
       = Path_normalize (posix_path ''/app'') ''/app/./custom/../lib''
   \<and> modulePaths (addPath (posix_path ''/app'')
        (addPath (posix_path ''/app'') example_instance ''/app/./custom/../lib'') ''/app//lib'')
       = [''/app/lib'']
   \<and> paths (owner_module (addPath (posix_path ''/app'')
        (addPath (posix_path ''/app'') example_instance ''/app/./custom/../lib'') ''/app//lib''))
       = Some [''/app/lib'', ''/app/src/node_modules'', ''/app/node_modules'']"
proof -
  let ?P = "posix_path ''/app''"
  let ?p = "''/app/./custom/../lib''"
  let ?q = "''/app//lib''"
  have np: "Path_normalize ?P ?p = ''/app/lib''" by code_simp
  have nq: "Path_normalize ?P ?q = ''/app/lib''" by code_simp
  have idem: "Path_normalize ?P (Path_normalize ?P ?p) = Path_normalize ?P ?p"
    by (simp add: posix_path_def posix_normalize_idem)
  have q: "Path_normalize ?P ?q = Path_normalize ?P ?p" by (simp only: np nq)
  have new: "Path_normalize ?P ?p \<notin> set (modulePaths example_instance)"
    by (simp add: example_defs)
  note main = addPath_idempotent[OF idem, of ?q example_instance]
  have twice: "addPath ?P (addPath ?P example_instance ?p) ?q = addPath ?P example_instance ?p"
    using main q by blast
  have front: "modulePaths (addPath ?P example_instance ?p)
                 = Path_normalize ?P ?p # modulePaths example_instance"
    using main new by blast
  have own: "paths (owner_module (addPath ?P example_instance ?p))
               = (case paths (owner_module example_instance) of
                    None \<Rightarrow> None
                  | Some arr \<Rightarrow>
                      Some (if Path_normalize ?P ?p \<in> set arr then arr
                            else Path_normalize ?P ?p # arr))"
    using main new by blast
  have a: "modulePaths (addPath ?P (addPath ?P example_instance ?p) ?q) = [''/app/lib'']"
    unfolding twice front np by (simp add: example_defs)
  have b: "paths (owner_module (addPath ?P (addPath ?P example_instance ?p) ?q))
             = Some [''/app/lib'', ''/app/src/node_modules'', ''/app/node_modules'']"
    unfolding twice own np by (simp add: example_defs)
  show ?thesis using idem q a b by blast
qed

subsection \<open>The alias table\<close>

lemma js_put_keys:
  "map fst (js_put obj k v)
     = (if k = ''__proto__'' \<or> k \<in> set (map fst obj) then map fst obj else map fst obj @ [k])"
  by (simp add: js_put_def update_keys)

lemma js_get_put:
  "k \<noteq> ''__proto__'' \<Longrightarrow> js_get (js_put obj k v) k' = (if k' = k then Some v else js_get obj k')"
  by (simp add: js_get_def js_put_def update_conv')

lemma addAlias_ok: "alias_table_ok self \<Longrightarrow> alias_table_ok (addAlias self a t)"
  by (auto simp: alias_table_ok_def addAlias_def Let_def js_put_keys)

lemma addAliases_ok: "alias_table_ok self \<Longrightarrow> alias_table_ok (addAliases self l)"
  by (induction l arbitrary: self) (auto simp: addAlias_ok)

lemma register_ok: "alias_table_ok self \<Longrightarrow> alias_table_ok (register self c)"
  by (cases c) (simp_all add: addAlias_ok addAliases_ok)

lemma register_all_ok: "alias_table_ok self \<Longrightarrow> alias_table_ok (register_all self calls)"
  unfolding register_all_def
  by (induction calls arbitrary: self) (simp_all add: register_ok)

lemma new_instance_ok: "alias_table_ok (new_instance m nmp rf)"
  by (simp add: alias_table_ok_def new_instance_def Object_keys_def)

lemma alias_table_ok_index:
  assumes "alias_table_ok self"
  shows "sorted (moduleAliasNames self)" "distinct (moduleAliasNames self)"
    "set (moduleAliasNames self) = fst ` set (moduleAliases self)"
    "moduleAliasNames self = sorted_list_of_set (fst ` set (moduleAliases self))"
proof -
  have d: "distinct (Object_keys (moduleAliases self))"
    using assms by (simp add: alias_table_ok_def distinct_Object_keys)
  have n: "moduleAliasNames self = sort (Object_keys (moduleAliases self))"
    using assms by (simp add: alias_table_ok_def)
  show "sorted (moduleAliasNames self)" by (simp add: n)
  show "distinct (moduleAliasNames self)" using d by (simp add: n)
  show "set (moduleAliasNames self) = fst ` set (moduleAliases self)"
    by (simp add: n set_Object_keys)
  have "sorted_list_of_set (set (Object_keys (moduleAliases self)))
          = sort (remdups (Object_keys (moduleAliases self)))"
    by (rule sorted_list_of_set_sort_remdups)
  then show "moduleAliasNames self = sorted_list_of_set (fst ` set (moduleAliases self))"
    using d by (simp add: n set_Object_keys distinct_remdups_id)
qed

lemma addAlias_get:
  "a \<noteq> ''__proto__'' \<Longrightarrow>
     js_get (moduleAliases (addAlias self a t)) n
       = (if n = a then Some t else js_get (moduleAliases self) n)"
  by (simp add: addAlias_def Let_def js_get_put)

lemma addAlias_proto: "moduleAliases (addAlias self ''__proto__'' t) = moduleAliases self"
  by (simp add: addAlias_def Let_def js_put_def)

lemma addAliases_get:
  "n \<noteq> ''__proto__'' \<Longrightarrow>
     js_get (moduleAliases (addAliases self l)) n
       = (case map_of (rev l) n of Some t \<Rightarrow> Some t | None \<Rightarrow> js_get (moduleAliases self) n)"
proof (induction l arbitrary: self)
  case Nil
  then show ?case by simp
next
  case (Cons e l)
  obtain a t where e: "e = (a, t)" by (cases e)
  have one: "js_get (moduleAliases (addAlias self a t)) n
               = (if n = a then Some t else js_get (moduleAliases self) n)"
  proof (cases "a = ''__proto__''")
    case True
    then show ?thesis using Cons.prems by (simp add: addAlias_proto)
  next
    case False
    then show ?thesis by (rule addAlias_get)
  qed
  show ?case
    using Cons.IH[OF Cons.prems, of "addAlias self a t"]
    by (simp add: e one map_add_def split: option.splits)
qed

lemma addAliases_append: "addAliases self (xs @ ys) = addAliases (addAliases self xs) ys"
  by (induction xs arbitrary: self) auto

lemma register_entries: "register self c = addAliases self (entries_of c)"
  by (cases c) simp_all

lemma register_all_entries: "register_all self calls = addAliases self (registered_entries calls)"
  unfolding register_all_def registered_entries_def
  by (induction calls arbitrary: self) (simp_all add: register_entries addAliases_append)

lemma alias_table_ok_no_proto:
  assumes "alias_table_ok self" "n \<in> set (moduleAliasNames self)"
  shows "n \<noteq> ''__proto__''"
proof -
  have "n \<in> fst ` set (moduleAliases self)"
    using alias_table_ok_names[OF assms(1)] assms(2) by blast
  moreover have "''__proto__'' \<notin> fst ` set (moduleAliases self)"
    using assms(1) by (simp add: alias_table_ok_def)
  ultimately show ?thesis by blast
qed

lemma addAlias_overwrite:
  assumes ok: "alias_table_ok self" and n: "n \<in> set (moduleAliasNames self)"
  shows "js_get (moduleAliases (addAlias self n t)) n = Some t"
    and "moduleAliasNames (addAlias self n t) = moduleAliasNames self"
    and "map fst (moduleAliases (addAlias self n t)) = map fst (moduleAliases self)"
proof -
  have key: "n \<in> set (map fst (moduleAliases self))"
    using alias_table_ok_index(3)[OF ok] n by simp
  have np: "n \<noteq> ''__proto__''" using ok n by (rule alias_table_ok_no_proto)
  show "js_get (moduleAliases (addAlias self n t)) n = Some t"
    using np by (simp add: addAlias_get)
  show k: "map fst (moduleAliases (addAlias self n t)) = map fst (moduleAliases self)"
    using key by (simp add: addAlias_def Let_def js_put_keys)
  have "Object_keys (moduleAliases (addAlias self n t)) = Object_keys (moduleAliases self)"
    using k by (simp add: Object_keys_def)
  then show "moduleAliasNames (addAlias self n t) = moduleAliasNames self"
    using ok by (simp add: alias_table_ok_def addAlias_def Let_def)
qed

text \<open>
  Claim C7. Starting from a table in its initial or any later state, after every
  sequence of \<open>addAlias\<close> and \<open>addAliases\<close> calls the name index is the sorted list of the
  keys of the alias dictionary, without repetition. Adding a name that is already there
  puts the new target in place of the old one and leaves the names as they are; after
  the sequence, each name reads the target of the last call that registered it, and
  that is the target a resolution stopping at the name applies.
\<close>

theorem alias_index_in_step:
  assumes ok: "alias_table_ok self"
  shows "alias_table_ok (new_instance m nmp rf)
       \<and> alias_table_ok (register_all self calls)
       \<and> moduleAliasNames (register_all self calls)
           = sort (Object_keys (moduleAliases (register_all self calls)))
       \<and> moduleAliasNames (register_all self calls)
           = sorted_list_of_set (fst ` set (moduleAliases (register_all self calls)))
       \<and> sorted (moduleAliasNames (register_all self calls))
       \<and> distinct (moduleAliasNames (register_all self calls))
       \<and> distinct (map fst (moduleAliases (register_all self calls)))
       \<and> (\<forall>n\<in>set (moduleAliasNames (register_all self calls)).
             js_get (moduleAliases (addAlias (register_all self calls) n t)) n = Some t
             \<and> moduleAliasNames (addAlias (register_all self calls) n t)
                 = moduleAliasNames (register_all self calls)
             \<and> map fst (moduleAliases (addAlias (register_all self calls) n t))
                 = map fst (moduleAliases (register_all self calls)))
       \<and> (\<forall>n\<in>set (moduleAliasNames (register_all self calls)).
             js_get (moduleAliases (register_all self calls)) n
               = (case map_of (rev (registered_entries calls)) n of
                    Some target \<Rightarrow> Some target
                  | None \<Rightarrow> js_get (moduleAliases self) n))
       \<and> (\<forall>n\<in>set (moduleAliasNames (register_all self calls)).
             map_of (rev (registered_entries calls)) n = Some (Static target)
             \<longrightarrow> apply_alias P (register_all self calls) request parent n
                   = Inr (Path_join P target (substr request (length n))))"
proof -
  let ?s = "register_all self calls"
  have ok': "alias_table_ok ?s" using ok by (rule register_all_ok)
  have np: "\<forall>n\<in>set (moduleAliasNames ?s). n \<noteq> ''__proto__''"
    using alias_table_ok_no_proto[OF ok'] by blast
  have last: "\<forall>n\<in>set (moduleAliasNames ?s).
             js_get (moduleAliases ?s) n
               = (case map_of (rev (registered_entries calls)) n of
                    Some target \<Rightarrow> Some target
                  | None \<Rightarrow> js_get (moduleAliases self) n)"
    using np by (simp add: register_all_entries addAliases_get)
  have used: "\<forall>n\<in>set (moduleAliasNames ?s).
             map_of (rev (registered_entries calls)) n = Some (Static target)
             \<longrightarrow> apply_alias P ?s request parent n
                   = Inr (Path_join P target (substr request (length n)))"
    using last by (auto intro: apply_alias_Static)
  have over: "\<forall>n\<in>set (moduleAliasNames ?s).
             js_get (moduleAliases (addAlias ?s n t)) n = Some t
             \<and> moduleAliasNames (addAlias ?s n t) = moduleAliasNames ?s
             \<and> map fst (moduleAliases (addAlias ?s n t)) = map fst (moduleAliases ?s)"
    using addAlias_overwrite[OF ok'] by blast
  have d: "distinct (map fst (moduleAliases ?s))" using ok' by (simp add: alias_table_ok_def)
  have n: "moduleAliasNames ?s = sort (Object_keys (moduleAliases ?s))"
    using ok' by (simp add: alias_table_ok_def)
  show ?thesis
    using new_instance_ok ok' n alias_table_ok_index(4)[OF ok'] alias_table_ok_index(1)[OF ok']
      alias_table_ok_index(2)[OF ok'] d over last used
    by blast
qed

theorem alias_index_in_step_witness:
  "alias_table_ok example_instance
   \<and> moduleAliasNames (register_all example_instance
        [AddAlias ''@b'' (Static ''/one''),
         AddAliases [(''@a'', Static ''/a''), (''@b'', Static ''/two'')]])
       = [''@a'', ''@b'']
   \<and> js_get (moduleAliases (register_all example_instance
        [AddAlias ''@b'' (Static ''/one''),
         AddAliases [(''@a'', Static ''/a''), (''@b'', Static ''/two'')]])) ''@b''
       = Some (Static ''/two'')
   \<and> apply_alias (posix_path ''/app'') (register_all example_instance
        [AddAlias ''@b'' (Static ''/one''),
         AddAliases [(''@a'', Static ''/a''), (''@b'', Static ''/two'')]])
        ''@b/x'' None ''@b''
       = Inr ''/two/x''"
proof -
  let ?calls = "[AddAlias ''@b'' (Static ''/one''),
         AddAliases [(''@a'', Static ''/a''), (''@b'', Static ''/two'')]]"
  let ?s = "register_all example_instance ?calls"
  let ?P = "posix_path ''/app''"
  have ok: "alias_table_ok example_instance" by code_simp
  have names: "moduleAliasNames ?s = [''@a'', ''@b'']" by code_simp
  have b: "''@b'' \<in> set (moduleAliasNames ?s)" by (simp add: names)
  have l: "map_of (rev (registered_entries ?calls)) ''@b'' = Some (Static ''/two'')"
    by (simp add: registered_entries_def)
  have j: "Path_join ?P ''/two'' (substr ''@b/x'' (length ''@b'')) = ''/two/x''" by code_simp
  note main = alias_index_in_step[OF ok, of _ _ _ ?calls _ "''/two''" ?P "''@b/x''" None]
  have g: "js_get (moduleAliases ?s) ''@b'' = Some (Static ''/two'')"
    using main b l by (metis option.simps(5))
  have u: "apply_alias ?P ?s ''@b/x'' None ''@b'' = Inr ''/two/x''"
    using main b l j by metis
  show ?thesis using ok names g u by blast
qed

subsection \<open>Construction\<close>

lemma example_candidates:
  "candidatePackagePaths (posix_path ''/app'') example_environment No_options
     = [''/app/node_modules'', ''/app'']"
  by code_simp

lemma example_load:
  "load_package (posix_path ''/app'') example_environment [''/app/node_modules'', ''/app'']
     = (Some ''/app'', Some (Json_object example_package))"
  by code_simp

lemma example_keys:
  "sort (Object_keys [(''@root'', a)]) = [''@root'']"
  "sort (Object_keys [(''@root'', a), (''@client'', b)]) = [''@client'', ''@root'']"
  by code_simp+

lemma example_paths:
  "Path_isAbsolute (posix_path ''/app'') ''.'' = False"
  "Path_isAbsolute (posix_path ''/app'') ''/src/client'' = True"
  "Path_join (posix_path ''/app'') ''/app'' ''/src/client'' = ''/app/src/client''"
  "Path_join (posix_path ''/app'') ''/app'' ''node_modules_custom'' = ''/app/node_modules_custom''"
  "Path_normalize (posix_path ''/app'') ''/app/node_modules_custom'' = ''/app/node_modules_custom''"
  by code_simp+

lemma example_import:
  "import_manifest (posix_path ''/app'') ''/app'' example_package example_instance
     = example_published"
  by (simp add: import_manifest_def rebase_aliases_def register_directories_def
      example_package_def example_published_def example_instance_def new_instance_def
      example_module_def addAlias_def js_put_def addPath_def addPathHelper_def
      array_lacks_def unshift_def example_keys example_paths Let_def)

lemma example_first_construction:
  "ModuleAlias_constructor (posix_path ''/app'') example_environment example_world
      (Some example_module) No_options
     = Inr (\<lparr> store = [example_published], ModuleCtor = Patched 0 \<rparr>, 0)"
  by (simp add: ModuleAlias_constructor_def example_candidates example_load example_world_def
      example_import[unfolded example_instance_def] Let_def del: load_package.simps)

text \<open>A construction that installs leaves its instance published and in the store.\<close>

lemma construction_publishes:
  assumes "ModuleCtor w = Unpatched nmp rf"
    and "ModuleAlias_constructor P env w parent givenOptions = Inr (w1, h1)"
  shows "ModuleCtor w1 = Patched h1 \<and> h1 = length (store w) \<and> h1 < length (store w1)"
  using assms
  by (auto simp: ModuleAlias_constructor_def Let_def
      split: option.splits json_value.splits prod.splits)

lemma constructor_guard:
  assumes "ModuleCtor w = Patched first"
    and "parent \<noteq> None \<or> ambient_parent env \<noteq> None"
  shows "ModuleAlias_constructor P env w parent givenOptions = Inr (w, first)"
  using assms by (auto simp: ModuleAlias_constructor_def split: option.splits)

text \<open>
  A construction that throws. Without a requesting module nothing has been touched.
  After the wrappers are installed, the hooks left behind are those of an instance with
  empty tables: the builder is the captured builder, and the resolver is the captured
  resolver behind a repair with an empty Path Set. A later construction captures them.
\<close>

lemma abandoned_resolver_eq:
  "moduleAliasNames self = [] \<Longrightarrow>
     returned (resolveFilename P self request parent args)
       = Inr (abandoned_resolver self request parent args)"
  by (simp add: resolveFilename_returned abandoned_resolver_def)

lemma abandoned_resolver_behind:
  "modulePaths inner = [] \<Longrightarrow>
     abandoned_resolver inner request
       (map_option (\<lambda>p. p\<lparr> paths := Some (repaired_paths self parent) \<rparr>) parent) args
     = oldResolveFilename inner request
         (map_option (\<lambda>p. p\<lparr> paths := Some (repaired_paths self parent) \<rparr>) parent) args"
  by (cases parent) (simp_all add: abandoned_resolver_def repaired_paths_settled)

lemma abandoned_builder:
  "modulePaths self = [] \<Longrightarrow> nodeModulePaths self = oldNodeModulePaths self"
  by (rule ext) (simp add: nodeModulePaths_def Let_def)

lemma construction_failure:
  assumes "ModuleCtor w = Unpatched nmp rf"
    and "(case parent of Some p \<Rightarrow> Some p | None \<Rightarrow> ambient_parent env) = Some m"
    and "ModuleAlias_constructor P env w parent givenOptions = Inl (e, w')"
  shows "w' = w\<lparr> ModuleCtor := Unpatched nmp (abandoned_resolver (new_instance m nmp rf)) \<rparr>
         \<and> store w' = store w"
  using assms
  by (auto simp: ModuleAlias_constructor_def Let_def abandoned_hooks_def abandoned_builder
      new_instance_def
      split: option.splits json_value.splits prod.splits)

lemma construction_without_parent:
  "parent = None \<Longrightarrow> ambient_parent env = None \<Longrightarrow>
     ModuleAlias_constructor P env w parent givenOptions = Inl (InitializationError_parent, w)"
  by (simp add: ModuleAlias_constructor_def)

lemma load_package_found:
  "load_package P env cs = (found, Some v) \<Longrightarrow>
     \<exists>base. found = Some base \<and> base \<in> set cs
       \<and> require_json env (Path_join P base ''package.json'') = Required v"
proof (induction cs arbitrary: found)
  case Nil
  then show ?case by simp
next
  case (Cons c cs)
  show ?case
  proof (cases "require_json env (Path_join P c ''package.json'')")
    case Require_throws
    obtain f' v' where l: "load_package P env cs = (f', v')" by (cases "load_package P env cs")
    have v': "v' = Some v" using Cons.prems Require_throws l by (cases f') simp_all
    from Cons.IH[of f'] l v' obtain base where b: "f' = Some base" "base \<in> set cs"
      "require_json env (Path_join P base ''package.json'') = Required v" by auto
    have "found = Some base" using Cons.prems Require_throws l b(1) by simp
    then show ?thesis using b by auto
  next
    case (Required x)
    then show ?thesis using Cons.prems by auto
  qed
qed

lemma addAlias_at_store:
  "h < length (store w) \<Longrightarrow>
     store (addAlias_at w h a t) ! h = addAlias (store w ! h) a t"
  by (simp add: addAlias_at_def)

lemma addAlias_at_ctor: "ModuleCtor (addAlias_at w h a t) = ModuleCtor w"
  by (simp add: addAlias_at_def)

text \<open>
  Claim C4. When the module-constructor object carries a published instance,
  constructing again (with a requesting module, given or ambient) returns the address
  of that instance and the world exactly as it was: nothing is stored, captured or
  wrapped. The handle returned is the first handle, so an \<open>addAlias\<close> made through it
  changes the one instance that the first handle reads and that the installed
  resolver consults.
\<close>

theorem construction_idempotent:
  assumes pub: "ModuleCtor w = Patched first"
    and live: "first < length (store w)"
    and par: "parent \<noteq> None \<or> ambient_parent env \<noteq> None"
  shows "\<exists>w2 second.
           ModuleAlias_constructor P env w parent givenOptions = Inr (w2, second)
         \<and> second = first \<and> w2 = w
         \<and> store (addAlias_at w2 second a t) ! first = addAlias (store w ! first) a t
         \<and> ModuleCtor (addAlias_at w2 second a t) = Patched first
         \<and> call_resolveFilename P (addAlias_at w2 second a t) request p args
             = returned (resolveFilename P (addAlias (store w ! first) a t) request p args)"
proof -
  have c: "ModuleAlias_constructor P env w parent givenOptions = Inr (w, first)"
    using pub par by (rule constructor_guard)
  have s: "store (addAlias_at w first a t) ! first = addAlias (store w ! first) a t"
    using live by (rule addAlias_at_store)
  have m: "ModuleCtor (addAlias_at w first a t) = Patched first"
    using pub by (simp add: addAlias_at_ctor)
  have r: "call_resolveFilename P (addAlias_at w first a t) request p args
             = returned (resolveFilename P (addAlias (store w ! first) a t) request p args)"
    by (simp add: call_resolveFilename_def m s)
  show ?thesis using c s m r by blast
qed

theorem construction_idempotent_witness:
  "ModuleAlias_constructor (posix_path ''/app'') example_environment example_world
      (Some example_module) No_options
     = Inr (\<lparr> store = [example_published], ModuleCtor = Patched 0 \<rparr>, 0)
   \<and> ModuleAlias_constructor (posix_path ''/app'') example_environment
       \<lparr> store = [example_published], ModuleCtor = Patched 0 \<rparr>
       (Some (example_module\<lparr> module_address := 1, filename := ''/app/src/other.js'' \<rparr>))
       (Base_string ''/elsewhere'')
     = Inr (\<lparr> store = [example_published], ModuleCtor = Patched 0 \<rparr>, 0)
   \<and> static_targets (moduleAliases
        (store (addAlias_at \<lparr> store = [example_published], ModuleCtor = Patched 0 \<rparr> 0
                  ''@late'' (Static ''/late'')) ! 0))
       = [(''@root'', Some ''.''), (''@client'', Some ''/app/src/client''), (''@late'', Some ''/late'')]
   \<and> call_resolveFilename (posix_path ''/app'')
        (addAlias_at \<lparr> store = [example_published], ModuleCtor = Patched 0 \<rparr> 0
           ''@late'' (Static ''/late''))
        ''@late/x'' None True
       = Inr (''/late/x'', None, True)"
proof -
  let ?P = "posix_path ''/app''"
  let ?w = "\<lparr> store = [example_published], ModuleCtor = Patched 0 \<rparr>
              :: (bool, string \<times> node_module option \<times> bool) world"
  let ?m = "example_module\<lparr> module_address := 1, filename := ''/app/src/other.js'' \<rparr>"
  have pub: "ModuleCtor ?w = Patched 0" by simp
  have live: "0 < length (store ?w)" by simp
  have par: "Some ?m \<noteq> None \<or> ambient_parent example_environment \<noteq> None" by simp
  from construction_idempotent[OF pub live par, of ?P "Base_string ''/elsewhere''"
      "''@late''" "Static ''/late''" "''@late/x''" None True]
  obtain w2 second where
    c: "ModuleAlias_constructor ?P example_environment ?w (Some ?m) (Base_string ''/elsewhere'')
          = Inr (w2, second)"
    and e: "second = 0" "w2 = ?w"
    and s: "store (addAlias_at w2 second ''@late'' (Static ''/late'')) ! 0
              = addAlias (store ?w ! 0) ''@late'' (Static ''/late'')"
    and r: "call_resolveFilename ?P (addAlias_at w2 second ''@late'' (Static ''/late''))
              ''@late/x'' None True
             = returned (resolveFilename ?P (addAlias (store ?w ! 0) ''@late'' (Static ''/late''))
                 ''@late/x'' None True)"
    by blast
  have v1: "static_targets (moduleAliases (addAlias example_published ''@late'' (Static ''/late'')))
       = [(''@root'', Some ''.''), (''@client'', Some ''/app/src/client''), (''@late'', Some ''/late'')]"
    by code_simp
  have v2: "returned (resolveFilename ?P (addAlias example_published ''@late'' (Static ''/late''))
                 ''@late/x'' None True)
       = Inr (''/late/x'', None, True)"
    by code_simp
  show ?thesis
    using example_first_construction c e s r v1 v2 by simp
qed

lemma register_directories_filter:
  "register_directories P base self dirs
     = foldl (\<lambda>s dir. addPath P s (Path_join P base dir)) self
         (filter (\<lambda>dir. dir \<noteq> ''node_modules'') dirs)"
  unfolding register_directories_def
  by (induction dirs arbitrary: self) (simp_all add: Let_def)

lemma addPath_aliases:
  "moduleAliases (addPath P self p) = moduleAliases self"
  "moduleAliasNames (addPath P self p) = moduleAliasNames self"
  by (simp_all add: addPath_def Let_def)

lemma addPath_ok: "alias_table_ok self \<Longrightarrow> alias_table_ok (addPath P self p)"
  by (simp add: alias_table_ok_def addPath_aliases)

lemma addPath_set:
  "set (modulePaths (addPath P self p)) = insert (Path_normalize P p) (set (modulePaths self))"
  by (auto simp: addPath_def Let_def array_lacks_def unshift_def)

lemma foldl_addPath:
  "moduleAliases (foldl (\<lambda>s d. addPath P s (f d)) self ds) = moduleAliases self
   \<and> alias_table_ok (foldl (\<lambda>s d. addPath P s (f d)) self ds) = alias_table_ok self
   \<and> set (modulePaths (foldl (\<lambda>s d. addPath P s (f d)) self ds))
       = set (modulePaths self) \<union> (\<lambda>d. Path_normalize P (f d)) ` set ds
   \<and> (distinct (modulePaths self)
        \<longrightarrow> distinct (modulePaths (foldl (\<lambda>s d. addPath P s (f d)) self ds)))"
proof (induction ds arbitrary: self)
  case Nil
  then show ?case by simp
next
  case (Cons d ds)
  show ?case
    using Cons.IH[of "addPath P self (f d)"]
    by (auto simp: addPath_aliases addPath_set addPath_distinct alias_table_ok_def)
qed

lemma addAlias_paths: "modulePaths (addAlias self a t) = modulePaths self"
  by (simp add: addAlias_def Let_def)

lemma addAliases_paths: "modulePaths (addAliases self l) = modulePaths self"
  by (induction l arbitrary: self) (auto simp: addAlias_paths)

lemma import_manifest_eq:
  "import_manifest P base pkg self
     = (case pkg_moduleDirectories pkg of
          None \<Rightarrow>
            addAliases self
              (map (\<lambda>(alias, target).
                      (alias, Static (if Path_isAbsolute P target then Path_join P base target
                                      else target)))
                 (pkg_moduleAliases pkg))
        | Some dirs \<Rightarrow>
            foldl (\<lambda>s dir. addPath P s (Path_join P base dir))
              (addAliases self
                 (map (\<lambda>(alias, target).
                         (alias, Static (if Path_isAbsolute P target then Path_join P base target
                                         else target)))
                    (pkg_moduleAliases pkg)))
              (filter (\<lambda>dir. dir \<noteq> ''node_modules'') dirs))"
  by (simp add: import_manifest_def rebase_aliases_def register_directories_filter Let_def
      split_def comp_def split: option.splits)

lemma map_of_rev_distinct:
  "distinct (map fst l) \<Longrightarrow> (k, v) \<in> set l \<Longrightarrow> map_of (rev l) k = Some v"
  by (rule map_of_is_SomeI) (simp_all add: rev_map[symmetric])

text \<open>
  Claim C9. A construction that finds no published instance and loads a manifest
  object from the candidate \<open>base\<close> publishes a new instance, which is the fresh instance
  after these registrations: \<open>addAliases\<close> with every declared alias, its target joined
  to \<open>base\<close> when \<open>Path.isAbsolute\<close> holds of it and verbatim otherwise; then, when the
  manifest lists directories, \<open>addPath\<close> of \<open>base\<close> joined with the directory, for each
  listed directory other than \<open>node_modules\<close>, in the order listed. So each declared
  alias (the manifest's names being distinct, and \<open>__proto__\<close> apart) reads that target,
  and the Path Set holds the normalized joined directories and nothing else.
\<close>

theorem manifest_import:
  assumes un: "ModuleCtor w = Unpatched nmp rf"
    and par: "(case parent of Some p \<Rightarrow> Some p | None \<Rightarrow> ambient_parent env) = Some m"
    and found: "load_package P env (candidatePackagePaths P env givenOptions)
                  = (Some base, Some (Json_object pkg))"
    and nonempty: "base \<noteq> []"
  shows "\<exists>self.
           ModuleAlias_constructor P env w parent givenOptions
             = Inr (w\<lparr> store := store w @ [self], ModuleCtor := Patched (length (store w)) \<rparr>,
                    length (store w))
         \<and> self
             = (case pkg_moduleDirectories pkg of
                  None \<Rightarrow>
                    addAliases (new_instance m nmp rf)
                      (map (\<lambda>(alias, target).
                              (alias, Static (if Path_isAbsolute P target
                                              then Path_join P base target else target)))
                         (pkg_moduleAliases pkg))
                | Some dirs \<Rightarrow>
                    foldl (\<lambda>s dir. addPath P s (Path_join P base dir))
                      (addAliases (new_instance m nmp rf)
                         (map (\<lambda>(alias, target).
                                 (alias, Static (if Path_isAbsolute P target
                                                 then Path_join P base target else target)))
                            (pkg_moduleAliases pkg)))
                      (filter (\<lambda>dir. dir \<noteq> ''node_modules'') dirs))
         \<and> alias_table_ok self
         \<and> (distinct (map fst (pkg_moduleAliases pkg))
              \<longrightarrow> (\<forall>(alias, target)\<in>set (pkg_moduleAliases pkg).
                     alias \<noteq> ''__proto__''
                     \<longrightarrow> js_get (moduleAliases self) alias
                           = Some (Static (if Path_isAbsolute P target
                                           then Path_join P base target else target))))
         \<and> set (modulePaths self)
             = (\<lambda>dir. Path_normalize P (Path_join P base dir))
                 ` {dir \<in> set (case pkg_moduleDirectories pkg of None \<Rightarrow> [] | Some dirs \<Rightarrow> dirs).
                     dir \<noteq> ''node_modules''}
         \<and> distinct (modulePaths self)"
proof -
  let ?f = "\<lambda>(alias, target).
              (alias, Static (if Path_isAbsolute P target then Path_join P base target else target))"
  let ?L = "map ?f (pkg_moduleAliases pkg)"
  let ?s0 = "new_instance m nmp rf :: ('a, 'b) ModuleAlias"
  let ?s1 = "addAliases ?s0 ?L"
  let ?self = "import_manifest P base pkg ?s0"
  have c: "ModuleAlias_constructor P env w parent givenOptions
             = Inr (w\<lparr> store := store w @ [?self], ModuleCtor := Patched (length (store w)) \<rparr>,
                    length (store w))"
    using un par found nonempty by (simp add: ModuleAlias_constructor_def Let_def)
  have ok1: "alias_table_ok ?s1" by (simp add: addAliases_ok new_instance_ok)
  have p1: "modulePaths ?s1 = []" by (simp add: addAliases_paths new_instance_def)
  have a1: "distinct (map fst (pkg_moduleAliases pkg))
              \<longrightarrow> (\<forall>(alias, target)\<in>set (pkg_moduleAliases pkg).
                     alias \<noteq> ''__proto__''
                     \<longrightarrow> js_get (moduleAliases ?s1) alias
                           = Some (Static (if Path_isAbsolute P target
                                           then Path_join P base target else target)))"
  proof (intro impI ballI, clarify)
    fix nm target
    assume d: "distinct (map fst (pkg_moduleAliases pkg))"
      and e: "(nm, target) \<in> set (pkg_moduleAliases pkg)"
      and n: "nm \<noteq> ''__proto__''"
    have k: "map fst ?L = map fst (pkg_moduleAliases pkg)" by (simp add: split_def comp_def)
    have "?f (nm, target) \<in> ?f ` set (pkg_moduleAliases pkg)" using e by (rule imageI)
    then have mem: "(nm, Static (if Path_isAbsolute P target then Path_join P base target else target))
                 \<in> set ?L" by simp
    have dL: "distinct (map fst ?L)" using d by (simp only: k)
    have "map_of (rev ?L) nm
                 = Some (Static (if Path_isAbsolute P target then Path_join P base target else target))"
      using dL mem by (rule map_of_rev_distinct)
    then show "js_get (moduleAliases ?s1) nm
                 = Some (Static (if Path_isAbsolute P target then Path_join P base target else target))"
      using n by (simp add: addAliases_get)
  qed
  show ?thesis
  proof (cases "pkg_moduleDirectories pkg")
    case None
    then have s: "?self = ?s1" by (simp add: import_manifest_eq)
    show ?thesis
      using c ok1 p1 a1 None unfolding s by (intro exI[of _ ?s1]) simp
  next
    case (Some dirs)
    let ?ds = "filter (\<lambda>dir. dir \<noteq> ''node_modules'') dirs"
    let ?s2 = "foldl (\<lambda>s dir. addPath P s (Path_join P base dir)) ?s1 ?ds"
    have s: "?self = ?s2" using Some by (simp add: import_manifest_eq)
    note f = foldl_addPath[of P "Path_join P base" ?s1 ?ds]
    have al: "moduleAliases ?s2 = moduleAliases ?s1" using f by blast
    have ok2: "alias_table_ok ?s2" using f ok1 by blast
    have ps: "set (modulePaths ?s2)
                = (\<lambda>dir. Path_normalize P (Path_join P base dir)) ` {dir \<in> set dirs. dir \<noteq> ''node_modules''}"
      using f p1 by auto
    have di: "distinct (modulePaths ?s2)" using f p1 by simp
    show ?thesis
      using c ok2 a1 ps di Some unfolding s al[symmetric]
      by (intro exI[of _ ?s2]) simp
  qed
qed

theorem manifest_import_witness:
  "ModuleCtor example_world = Unpatched example_nodeModulePaths example_resolver
   \<and> load_package (posix_path ''/app'') example_environment
        (candidatePackagePaths (posix_path ''/app'') example_environment No_options)
       = (Some ''/app'', Some (Json_object example_package))
   \<and> ModuleAlias_constructor (posix_path ''/app'') example_environment example_world
        (Some example_module) No_options
       = Inr (\<lparr> store = [example_published], ModuleCtor = Patched 0 \<rparr>, 0)
   \<and> js_get (moduleAliases example_published) ''@client'' = Some (Static ''/app/src/client'')
   \<and> js_get (moduleAliases example_published) ''@root'' = Some (Static ''.'')
   \<and> set (modulePaths example_published) = {''/app/node_modules_custom''}"
proof -
  let ?P = "posix_path ''/app''"
  have un: "ModuleCtor example_world = Unpatched example_nodeModulePaths example_resolver"
    by (simp add: example_world_def)
  have par: "(case Some example_module of Some p \<Rightarrow> Some p
              | None \<Rightarrow> ambient_parent example_environment) = Some example_module"
    by simp
  have found: "load_package ?P example_environment
                 (candidatePackagePaths ?P example_environment No_options)
                = (Some ''/app'', Some (Json_object example_package))"
    by (simp only: example_candidates example_load)
  have ne: "''/app'' \<noteq> []" by simp
  from manifest_import[OF un par found ne]
  obtain self where
    c: "ModuleAlias_constructor ?P example_environment example_world (Some example_module) No_options
          = Inr (example_world\<lparr> store := store example_world @ [self],
                   ModuleCtor := Patched (length (store example_world)) \<rparr>,
                 length (store example_world))"
    and a: "distinct (map fst (pkg_moduleAliases example_package))
              \<longrightarrow> (\<forall>(alias, target)\<in>set (pkg_moduleAliases example_package).
                     alias \<noteq> ''__proto__''
                     \<longrightarrow> js_get (moduleAliases self) alias
                           = Some (Static (if Path_isAbsolute ?P target
                                           then Path_join ?P ''/app'' target else target)))"
    and p: "set (modulePaths self)
             = (\<lambda>dir. Path_normalize ?P (Path_join ?P ''/app'' dir))
                 ` {dir \<in> set (case pkg_moduleDirectories example_package of
                                  None \<Rightarrow> [] | Some dirs \<Rightarrow> dirs).
                     dir \<noteq> ''node_modules''}"
    by blast
  have self: "self = example_published"
    using c example_first_construction by (simp add: example_world_def)
  have g1: "js_get (moduleAliases example_published) ''@client'' = Some (Static ''/app/src/client'')"
    using a unfolding self by (simp add: example_package_def example_paths)
  have g2: "js_get (moduleAliases example_published) ''@root'' = Some (Static ''.'')"
    using a unfolding self by (simp add: example_package_def example_paths)
  have dirs: "{dir \<in> set (case pkg_moduleDirectories example_package of
                                  None \<Rightarrow> [] | Some dirs \<Rightarrow> dirs).
                     dir \<noteq> ''node_modules''} = {''node_modules_custom''}"
    by (auto simp: example_package_def)
  have g3: "set (modulePaths example_published) = {''/app/node_modules_custom''}"
    using p unfolding self dirs by (simp add: example_paths)
  show ?thesis using un found example_first_construction g1 g2 g3 by blast
qed

end
